theory Spec2Isabelle
  imports Complex_Main "HOL-Library.Monad_Syntax"
begin

section \<open>JavaScript values\<close>

text \<open>
  A JavaScript number is a finite double, one of the two infinities, or NaN. A finite
  double is written as the real number it denotes. Comparisons of numbers are exact; the
  arithmetic operations round their results, and how they round is a parameter of the
  model (the record \<open>arith\<close> below).
\<close>

datatype jsnum = Fin real | PInf | NInf | NaN

text \<open>A value that may be \<^verbatim>\<open>undefined\<close>: the result of reading an array out of range.\<close>

datatype 'a js = Undefined | Val 'a

text \<open>An exception: an \<^verbatim>\<open>Error\<close> object, which carries its message.\<close>

datatype js_error = Error string

text \<open>\<^verbatim>\<open>a < b\<close> on numbers: false as soon as one side is NaN.\<close>

fun js_lt :: "jsnum \<Rightarrow> jsnum \<Rightarrow> bool" where
  "js_lt NaN _ = False"
| "js_lt _ NaN = False"
| "js_lt (Fin a) (Fin b) = (a < b)"
| "js_lt (Fin a) PInf = True"
| "js_lt (Fin a) NInf = False"
| "js_lt PInf _ = False"
| "js_lt NInf NInf = False"
| "js_lt NInf _ = True"

text \<open>\<^verbatim>\<open>a >= b\<close> on numbers.\<close>

fun js_ge :: "jsnum \<Rightarrow> jsnum \<Rightarrow> bool" where
  "js_ge NaN _ = False"
| "js_ge _ NaN = False"
| "js_ge (Fin a) (Fin b) = (a \<ge> b)"
| "js_ge (Fin a) PInf = False"
| "js_ge (Fin a) NInf = True"
| "js_ge PInf _ = True"
| "js_ge NInf NInf = True"
| "js_ge NInf _ = False"

text \<open>\<^verbatim>\<open>undefined\<close> becomes NaN where a number is expected.\<close>

fun to_number :: "jsnum js \<Rightarrow> jsnum" where
  "to_number Undefined = NaN"
| "to_number (Val x) = x"

text \<open>\<^verbatim>\<open>a <= b\<close> on numbers.\<close>

fun js_le :: "jsnum \<Rightarrow> jsnum \<Rightarrow> bool" where
  "js_le NaN _ = False"
| "js_le _ NaN = False"
| "js_le (Fin a) (Fin b) = (a \<le> b)"
| "js_le (Fin a) PInf = True"
| "js_le (Fin a) NInf = False"
| "js_le PInf PInf = True"
| "js_le PInf _ = False"
| "js_le NInf _ = True"

subsection \<open>Double arithmetic\<close>

text \<open>
  The arithmetic of the platform. The sum, difference, product and quotient of two finite
  doubles are the exact result rounded to a double, or to an infinity when it is too large:
  \<open>rnd x\<close> is the number that the exact result \<open>x\<close> is rounded to. \<^verbatim>\<open>Math.exp\<close> of a
  finite number is \<open>math_exp\<close>; the language leaves its accuracy to the implementation.
  Everything that computes with numbers takes the arithmetic as its first argument \<open>A\<close>,
  and what is proved for every \<open>A\<close> holds for the doubles of the platform.
\<close>

record arith =
  rnd :: "real \<Rightarrow> jsnum"
  math_exp :: "real \<Rightarrow> jsnum"

text \<open>A decimal literal such as \<^verbatim>\<open>0.20\<close> denotes the double nearest to it.\<close>

definition literal :: "arith \<Rightarrow> real \<Rightarrow> jsnum" where
  "literal A x = rnd A x"

text \<open>\<^verbatim>\<open>a + b\<close> on numbers.\<close>

fun add_with :: "arith \<Rightarrow> jsnum \<Rightarrow> jsnum \<Rightarrow> jsnum" where
  "add_with A NaN _ = NaN"
| "add_with A _ NaN = NaN"
| "add_with A (Fin a) (Fin b) = rnd A (a + b)"
| "add_with A (Fin a) PInf = PInf"
| "add_with A (Fin a) NInf = NInf"
| "add_with A PInf NInf = NaN"
| "add_with A PInf _ = PInf"
| "add_with A NInf PInf = NaN"
| "add_with A NInf _ = NInf"

text \<open>\<^verbatim>\<open>a - b\<close> on numbers.\<close>

fun sub_with :: "arith \<Rightarrow> jsnum \<Rightarrow> jsnum \<Rightarrow> jsnum" where
  "sub_with A NaN _ = NaN"
| "sub_with A _ NaN = NaN"
| "sub_with A (Fin a) (Fin b) = rnd A (a - b)"
| "sub_with A (Fin a) PInf = NInf"
| "sub_with A (Fin a) NInf = PInf"
| "sub_with A PInf PInf = NaN"
| "sub_with A PInf _ = PInf"
| "sub_with A NInf NInf = NaN"
| "sub_with A NInf _ = NInf"

text \<open>\<^verbatim>\<open>a * b\<close> on numbers: an infinity times zero is NaN.\<close>

fun mul_with :: "arith \<Rightarrow> jsnum \<Rightarrow> jsnum \<Rightarrow> jsnum" where
  "mul_with A NaN _ = NaN"
| "mul_with A _ NaN = NaN"
| "mul_with A (Fin a) (Fin b) = rnd A (a * b)"
| "mul_with A (Fin a) PInf = (if a = 0 then NaN else if 0 < a then PInf else NInf)"
| "mul_with A (Fin a) NInf = (if a = 0 then NaN else if 0 < a then NInf else PInf)"
| "mul_with A PInf (Fin b) = (if b = 0 then NaN else if 0 < b then PInf else NInf)"
| "mul_with A NInf (Fin b) = (if b = 0 then NaN else if 0 < b then NInf else PInf)"
| "mul_with A PInf PInf = PInf"
| "mul_with A PInf NInf = NInf"
| "mul_with A NInf PInf = NInf"
| "mul_with A NInf NInf = PInf"

text \<open>
  \<^verbatim>\<open>a / b\<close> on numbers. The sign of a zero is not part of the model: a zero divisor
  is taken as positive, and a quotient by an infinity is 0.
\<close>

fun div_with :: "arith \<Rightarrow> jsnum \<Rightarrow> jsnum \<Rightarrow> jsnum" where
  "div_with A NaN _ = NaN"
| "div_with A _ NaN = NaN"
| "div_with A (Fin a) (Fin b) =
     (if b = 0 then (if a = 0 then NaN else if 0 < a then PInf else NInf) else rnd A (a / b))"
| "div_with A (Fin a) PInf = Fin 0"
| "div_with A (Fin a) NInf = Fin 0"
| "div_with A PInf (Fin b) = (if b < 0 then NInf else PInf)"
| "div_with A NInf (Fin b) = (if b < 0 then PInf else NInf)"
| "div_with A PInf PInf = NaN"
| "div_with A PInf NInf = NaN"
| "div_with A NInf PInf = NaN"
| "div_with A NInf NInf = NaN"

text \<open>\<^verbatim>\<open>-a\<close> on numbers: exact.\<close>

fun js_neg :: "jsnum \<Rightarrow> jsnum" where
  "js_neg (Fin a) = Fin (- a)"
| "js_neg PInf = NInf"
| "js_neg NInf = PInf"
| "js_neg NaN = NaN"

text \<open>\<^verbatim>\<open>Math.exp(a)\<close>.\<close>

fun exp_with :: "arith \<Rightarrow> jsnum \<Rightarrow> jsnum" where
  "exp_with A (Fin a) = math_exp A a"
| "exp_with A PInf = PInf"
| "exp_with A NInf = Fin 0"
| "exp_with A NaN = NaN"

text \<open>
  \<^verbatim>\<open>Math.round(a)\<close>: the integer nearest to \<open>a\<close>, the upper one of two; it is a double,
  so nothing is rounded twice.
\<close>

fun js_round :: "jsnum \<Rightarrow> jsnum" where
  "js_round (Fin a) = Fin (of_int \<lfloor>a + 1 / 2\<rfloor>)"
| "js_round PInf = PInf"
| "js_round NInf = NInf"
| "js_round NaN = NaN"

text \<open>\<^verbatim>\<open>1.0 / (1.0 + Math.exp(-score))\<close>.\<close>

definition sigmoid_with :: "arith \<Rightarrow> jsnum \<Rightarrow> jsnum" where
  "sigmoid_with A score = div_with A (Fin 1) (add_with A (Fin 1) (exp_with A (js_neg score)))"

text \<open>\<^verbatim>\<open>Math.round(x * 10000) / 10000\<close>.\<close>

definition round4_with :: "arith \<Rightarrow> jsnum \<Rightarrow> jsnum" where
  "round4_with A x = div_with A (js_round (mul_with A x (Fin 10000))) (Fin 10000)"

text \<open>
  The arithmetic in which no result is rounded: the examples use it where every result of
  the doubles is exact too, or where the rounding does not reach the digit that matters.
\<close>

definition exact :: arith where
  "exact = \<lparr>rnd = Fin, math_exp = (\<lambda>x. Fin (exp x))\<rparr>"

text \<open>
  What the rounding of every platform does: it keeps the order, never gives NaN, and
  leaves 0, 1 and 10000 as they are; and \<^verbatim>\<open>Math.exp\<close> of a number is never negative
  nor NaN.
\<close>

definition faithful :: "arith \<Rightarrow> bool" where
  "faithful A \<longleftrightarrow>
     (\<forall>x y. x \<le> y \<longrightarrow> js_le (rnd A x) (rnd A y)) \<and>
     rnd A 0 = Fin 0 \<and> rnd A 1 = Fin 1 \<and> rnd A 10000 = Fin 10000 \<and>
     (\<forall>x. js_le (Fin 0) (math_exp A x))"

text \<open>
  \<^verbatim>\<open>arr[i]\<close>: \<^verbatim>\<open>undefined\<close> when the index is \<^verbatim>\<open>undefined\<close>, negative or
  not below the length.
\<close>

fun arr_get :: "'a list \<Rightarrow> int js \<Rightarrow> 'a js" where
  "arr_get xs Undefined = Undefined"
| "arr_get xs (Val i) = (if 0 \<le> i \<and> i < int (length xs) then Val (xs ! nat i) else Undefined)"

text \<open>Decimal digits of a length, for the text of error messages.\<close>

fun show_nat :: "nat \<Rightarrow> string" where
  "show_nat n = (if n < 10 then [''0123456789'' ! n]
                 else show_nat (n div 10) @ [''0123456789'' ! (n mod 10)])"

declare show_nat.simps [simp del]

section \<open>The tree ensemble\<close>

text \<open>
  The repository holds two copies of the predictor. The one modelled here reads trees in
  the array format and takes the number of features from the metadata; the older copy
  expects 14 features and trees as lists of node objects, not the format the loader
  describes.
\<close>

text \<open>
  A tree in the array format of the serialized model, which \<^verbatim>\<open>ModelLoader.parseTree\<close>
  hands on as it is: five arrays indexed by node. Child indices and split indices are
  integers, thresholds and weights finite numbers, as a JSON document holds them. Nothing
  says here that the arrays have one length or that the indices are in range: the reads of
  the code are modelled for every such tree. \<^verbatim>\<open>predictTree\<close> falls back to the older
  \<^verbatim>\<open>nodes\<close> format only for a tree object without \<^verbatim>\<open>left_children\<close>, which this
  type does not contain.
\<close>

record tree =
  left_children :: "int list"
  right_children :: "int list"
  split_indices :: "int list"
  split_conditions :: "real list"
  base_weights :: "real list"

record model =
  trees :: "tree list"
  base_score :: real
  num_trees :: nat

record metadata =
  feature_names :: "string list"
  recommended_threshold :: "real option"

text \<open>The state of \<^verbatim>\<open>ModelLoader\<close>; model and metadata are \<^verbatim>\<open>null\<close> until loaded.\<close>

record model_loader =
  loaded_model :: "model option"
  loaded_metadata :: "metadata option"
  isLoaded :: bool

text \<open>
  \<^verbatim>\<open>ModelLoader.getThreshold\<close>: \<^verbatim>\<open>this.metadata?.recommended_threshold || 0.70\<close>;
  a threshold of 0 is falsy and gives the default too.
\<close>

definition getThreshold :: "arith \<Rightarrow> model_loader \<Rightarrow> jsnum" where
  "getThreshold A L =
     (case loaded_metadata L of
        None \<Rightarrow> literal A (70 / 100)
      | Some md \<Rightarrow>
          (case recommended_threshold md of
             None \<Rightarrow> literal A (70 / 100)
           | Some t \<Rightarrow> if t = 0 then literal A (70 / 100) else Fin t))"

subsection \<open>Walking one tree\<close>

text \<open>The leaf test of \<^verbatim>\<open>predictTree\<close>: both children are exactly -1.\<close>

definition is_leaf :: "tree \<Rightarrow> int js \<Rightarrow> bool" where
  "is_leaf t nodeIdx \<longleftrightarrow>
     arr_get (left_children t) nodeIdx = Val (- 1) \<and> arr_get (right_children t) nodeIdx = Val (- 1)"

text \<open>
  \<^verbatim>\<open>featureValue < splitValue\<close>, where either side may be \<^verbatim>\<open>undefined\<close>
  (a split index outside the feature vector, a node index outside the thresholds).
\<close>

definition goes_left :: "tree \<Rightarrow> jsnum list \<Rightarrow> int js \<Rightarrow> bool" where
  "goes_left t features nodeIdx \<longleftrightarrow>
     js_lt (to_number (arr_get features (arr_get (split_indices t) nodeIdx)))
           (to_number (case arr_get (split_conditions t) nodeIdx of
                         Undefined \<Rightarrow> Undefined | Val c \<Rightarrow> Val (Fin c)))"

text \<open>The node index computed at an internal node.\<close>

definition next_node :: "tree \<Rightarrow> jsnum list \<Rightarrow> int js \<Rightarrow> int js" where
  "next_node t features nodeIdx =
     (if goes_left t features nodeIdx then arr_get (left_children t) nodeIdx
      else arr_get (right_children t) nodeIdx)"

text \<open>
  The safety check \<^verbatim>\<open>nodeIdx < 0 || nodeIdx >= leftChildren.length\<close>: both comparisons
  are false on \<^verbatim>\<open>undefined\<close>.
\<close>

fun invalid_index :: "tree \<Rightarrow> int js \<Rightarrow> bool" where
  "invalid_index t Undefined = False"
| "invalid_index t (Val i) = (i < 0 \<or> i \<ge> int (length (left_children t)))"

text \<open>
  The \<^verbatim>\<open>while (true)\<close> loop of \<^verbatim>\<open>predictTree\<close>. The result \<open>None\<close> is a loop that
  never returns; \<open>Some Undefined\<close> is a leaf weight read out of range.
\<close>

partial_function (option) walk :: "tree \<Rightarrow> jsnum list \<Rightarrow> int js \<Rightarrow> real js option" where
  "walk t features nodeIdx =
     (if is_leaf t nodeIdx then Some (arr_get (base_weights t) nodeIdx)
      else if invalid_index t (next_node t features nodeIdx) then Some (Val 0)
      else walk t features (next_node t features nodeIdx))"

declare walk.simps [code]

definition predictTree :: "tree \<Rightarrow> jsnum list \<Rightarrow> real js option" where
  "predictTree t features = walk t features (Val 0)"

text \<open>The value a tree's result has when added to the score.\<close>

fun tree_score :: "real js \<Rightarrow> jsnum" where
  "tree_score Undefined = NaN"
| "tree_score (Val w) = Fin w"

text \<open>
  The loop over the trees: \<^verbatim>\<open>score += treeScore\<close>, in the order of the trees, each
  sum rounded.
\<close>

fun add_trees :: "arith \<Rightarrow> tree list \<Rightarrow> jsnum list \<Rightarrow> jsnum \<Rightarrow> jsnum option" where
  "add_trees A [] features score = Some score"
| "add_trees A (t # ts) features score =
     (case predictTree t features of
        None \<Rightarrow> None
      | Some w \<Rightarrow> add_trees A ts features (add_with A score (tree_score w)))"

subsection \<open>The predictor\<close>

text \<open>
  \<^verbatim>\<open>Predictor.predict\<close>. \<open>None\<close>: the call does not return; \<open>Some (Inl e)\<close>: it throws
  \<open>e\<close>; \<open>Some (Inr p)\<close>: it returns \<open>p\<close>. Reading a property of \<^verbatim>\<open>null\<close> throws a
  TypeError. The line that logs the prediction formats numbers and changes nothing.
\<close>

definition length_error :: "nat \<Rightarrow> nat \<Rightarrow> js_error" where
  "length_error expected got =
     Error (''Expected '' @ show_nat expected @ '' features, got '' @ show_nat got)"

definition predict :: "arith \<Rightarrow> model_loader \<Rightarrow> jsnum list \<Rightarrow> (js_error + jsnum) option" where
  "predict A L features =
     (if \<not> isLoaded L then Some (Inl (Error ''Model not loaded''))
      else (case loaded_metadata L of
        None \<Rightarrow> Some (Inl (Error ''Cannot read properties of null''))
      | Some md \<Rightarrow>
          if length features \<noteq> length (feature_names md)
          then Some (Inl (length_error (length (feature_names md)) (length features)))
          else (case loaded_model L of
            None \<Rightarrow> Some (Inl (Error ''Cannot read properties of null''))
          | Some m \<Rightarrow>
              (case add_trees A (trees m) features (Fin (base_score m)) of
                 None \<Rightarrow> None
               | Some score \<Rightarrow> Some (Inr (round4_with A (sigmoid_with A score)))))))"

text \<open>The risk levels and the prediction object of \<^verbatim>\<open>predictWithConfidence\<close>.\<close>

datatype level = SAFE | SUSPICIOUS | PHISHING | UNKNOWN

record prediction =
  p_probability :: jsnum
  p_confidence :: jsnum
  p_level :: level
  p_threshold :: jsnum

text \<open>The level: the second comparison is with \<^verbatim>\<open>threshold - 0.20\<close>, a rounded difference.\<close>

definition risk_level :: "arith \<Rightarrow> jsnum \<Rightarrow> jsnum \<Rightarrow> level" where
  "risk_level A probability threshold =
     (if js_ge probability threshold then PHISHING
      else if js_ge probability (sub_with A threshold (literal A (20 / 100))) then SUSPICIOUS
      else SAFE)"

text \<open>\<^verbatim>\<open>Predictor.predictWithConfidence\<close>; an exception of \<^verbatim>\<open>predict\<close> passes through.\<close>

definition predictWithConfidence ::
  "arith \<Rightarrow> model_loader \<Rightarrow> jsnum list \<Rightarrow> (js_error + prediction) option" where
  "predictWithConfidence A L features =
     (case predict A L features of
        None \<Rightarrow> None
      | Some (Inl e) \<Rightarrow> Some (Inl e)
      | Some (Inr probability) \<Rightarrow>
          (let threshold = getThreshold A L;
               lvl = risk_level A probability threshold;
               confidence = (if lvl = SAFE then sub_with A (Fin 1) probability else probability)
           in Some (Inr \<lparr>p_probability = probability, p_confidence = round4_with A confidence,
                          p_level = lvl, p_threshold = threshold\<rparr>)))"

section \<open>Strings and URLs\<close>

text \<open>\<^verbatim>\<open>s.startsWith(p)\<close> and \<^verbatim>\<open>s.endsWith(p)\<close>.\<close>

definition starts_with :: "string \<Rightarrow> string \<Rightarrow> bool" where
  "starts_with s p \<longleftrightarrow> take (length p) s = p"

definition ends_with :: "string \<Rightarrow> string \<Rightarrow> bool" where
  "ends_with s p \<longleftrightarrow> length p \<le> length s \<and> drop (length s - length p) s = p"

text \<open>\<^verbatim>\<open>s.split(c)\<close>: the empty string gives one empty part.\<close>

fun split_on :: "char \<Rightarrow> string \<Rightarrow> string list" where
  "split_on c [] = [[]]"
| "split_on c (x # xs) =
     (if x = c then [] # split_on c xs
      else (case split_on c xs of [] \<Rightarrow> [[x]] | w # ws \<Rightarrow> (x # w) # ws))"

text \<open>\<^verbatim>\<open>parts.join(c)\<close>.\<close>

fun join_with :: "char \<Rightarrow> string list \<Rightarrow> string" where
  "join_with c [] = []"
| "join_with c [w] = w"
| "join_with c (w # ws) = w @ c # join_with c ws"

text \<open>
  The components of a \<^verbatim>\<open>URL\<close> object that the code reads. The parser itself belongs to the
  platform: every function that calls \<^verbatim>\<open>new URL(s)\<close> takes it as the argument \<open>P\<close>, and
  \<open>P s = None\<close> stands for the TypeError the constructor throws.
\<close>

record url_obj =
  protocol :: string
  hostname :: string
  pathname :: string
  search :: string

type_synonym url_parser = "string \<Rightarrow> url_obj option"

section \<open>The prediction cache\<close>

text \<open>
  A JavaScript \<^verbatim>\<open>Map\<close> with string keys, as the list of its entries in insertion order.
  \<^verbatim>\<open>set\<close> on a key that is present replaces the value where it stands; on a new key it
  appends.
\<close>

type_synonym 'v js_map = "(string \<times> 'v) list"

fun map_set :: "'v js_map \<Rightarrow> string \<Rightarrow> 'v \<Rightarrow> 'v js_map" where
  "map_set [] k v = [(k, v)]"
| "map_set ((k', v') # m) k v = (if k' = k then (k, v) # m else (k', v') # map_set m k v)"

definition map_delete :: "'v js_map \<Rightarrow> string \<Rightarrow> 'v js_map" where
  "map_delete m k = filter (\<lambda>kv. fst kv \<noteq> k) m"

text \<open>\<^verbatim>\<open>m.delete(m.keys().next().value)\<close>: nothing to delete in an empty map.\<close>

fun delete_first_key :: "'v js_map \<Rightarrow> 'v js_map" where
  "delete_first_key [] = []"
| "delete_first_key ((k, v) # m) = map_delete ((k, v) # m) k"

record 'v cache_entry =
  prediction :: 'v
  entry_timestamp :: int

record 'v prediction_cache =
  cache_map :: "'v cache_entry js_map"
  maxSize :: nat
  ttl :: int
  hits :: nat
  misses :: nat

text \<open>\<^verbatim>\<open>new PredictionCache(maxSize = 1000, ttlMs = 3600000)\<close>.\<close>

definition new_cache :: "nat \<Rightarrow> int \<Rightarrow> 'v prediction_cache" where
  "new_cache capacity ttlMs = \<lparr>cache_map = [], maxSize = capacity, ttl = ttlMs, hits = 0, misses = 0\<rparr>"

definition normalizeURL :: "url_parser \<Rightarrow> string \<Rightarrow> string" where
  "normalizeURL P u =
     (case P u of
        Some urlObj \<Rightarrow> protocol urlObj @ ''//'' @ hostname urlObj @ pathname urlObj @ search urlObj
      | None \<Rightarrow> u)"

text \<open>
  \<^verbatim>\<open>PredictionCache.get\<close>, with the reading of \<^verbatim>\<open>Date.now()\<close> as the argument \<open>now\<close>.
  The result is the cached value (\<open>None\<close> for \<^verbatim>\<open>null\<close>) and the cache after the call.
\<close>

definition cache_get ::
  "url_parser \<Rightarrow> 'v prediction_cache \<Rightarrow> string \<Rightarrow> int \<Rightarrow> 'v option \<times> 'v prediction_cache" where
  "cache_get P c u now =
     (let key = normalizeURL P u in
      case map_of (cache_map c) key of
        None \<Rightarrow> (None, c\<lparr>misses := misses c + 1\<rparr>)
      | Some entry \<Rightarrow>
          if now - entry_timestamp entry > ttl c
          then (None, c\<lparr>cache_map := map_delete (cache_map c) key, misses := misses c + 1\<rparr>)
          else (Some (prediction entry),
                c\<lparr>cache_map := map_set (map_delete (cache_map c) key) key entry,
                  hits := hits c + 1\<rparr>))"

text \<open>\<^verbatim>\<open>PredictionCache.set\<close>.\<close>

definition cache_set ::
  "url_parser \<Rightarrow> 'v prediction_cache \<Rightarrow> string \<Rightarrow> 'v \<Rightarrow> int \<Rightarrow> 'v prediction_cache" where
  "cache_set P c u v now =
     (let key = normalizeURL P u;
          m = (if length (cache_map c) \<ge> maxSize c then delete_first_key (cache_map c)
               else cache_map c)
      in c\<lparr>cache_map := map_set m key \<lparr>prediction = v, entry_timestamp = now\<rparr>\<rparr>)"

section \<open>The whitelist\<close>

record whitelist_state =
  domains :: "string set"
  loaded :: bool

definition new_whitelist :: whitelist_state where
  "new_whitelist = \<lparr>domains = {}, loaded = False\<rparr>"

text \<open>
  \<^verbatim>\<open>Whitelist.extractDomain\<close>: the last two labels of the host name, the host name itself
  when it has fewer than two labels, \<^verbatim>\<open>null\<close> when the URL does not parse.
\<close>

definition extractDomain :: "url_parser \<Rightarrow> string \<Rightarrow> string option" where
  "extractDomain P u =
     (let u' = (if \<not> starts_with u ''http://'' \<and> \<not> starts_with u ''https://''
                then ''http://'' @ u else u)
      in case P u' of
           None \<Rightarrow> None
         | Some urlObj \<Rightarrow>
             (let parts = split_on CHR ''.'' (hostname urlObj)
              in if length parts \<ge> 2 then Some (join_with CHR ''.'' (drop (length parts - 2) parts))
                 else Some (hostname urlObj)))"

text \<open>\<^verbatim>\<open>Whitelist.add\<close>: the result and the whitelist after the call.\<close>

definition whitelist_add :: "url_parser \<Rightarrow> whitelist_state \<Rightarrow> string \<Rightarrow> bool \<times> whitelist_state" where
  "whitelist_add P w u =
     (case extractDomain P u of
        None \<Rightarrow> (False, w)
      | Some domain \<Rightarrow>
          if domain = [] then (False, w)
          else (True, w\<lparr>domains := insert domain (domains w)\<rparr>))"

text \<open>\<^verbatim>\<open>Whitelist.remove\<close>.\<close>

definition whitelist_remove :: "url_parser \<Rightarrow> whitelist_state \<Rightarrow> string \<Rightarrow> bool \<times> whitelist_state" where
  "whitelist_remove P w u =
     (case extractDomain P u of
        None \<Rightarrow> (False, w)
      | Some domain \<Rightarrow>
          if domain = [] then (False, w)
          else (domain \<in> domains w, w\<lparr>domains := domains w - {domain}\<rparr>))"

text \<open>
  \<^verbatim>\<open>Whitelist.isWhitelisted\<close>: an exact match, or a match of the domain without its first
  \<open>i\<close> labels for some \<open>i\<close> from 1.
\<close>

definition isWhitelisted :: "url_parser \<Rightarrow> whitelist_state \<Rightarrow> string \<Rightarrow> bool" where
  "isWhitelisted P w u =
     (case extractDomain P u of
        None \<Rightarrow> False
      | Some domain \<Rightarrow>
          if domain = [] then False
          else if domain \<in> domains w then True
          else (let parts = split_on CHR ''.'' domain
                in list_ex (\<lambda>i. join_with CHR ''.'' (drop i parts) \<in> domains w)
                     [1 ..< length parts]))"

section \<open>The threshold manager\<close>

datatype action = BLOCK | WARN | ALLOW

record threshold_config =
  blockThreshold :: real
  warnThreshold :: real
  popularDomainThreshold :: real
  profile :: "string option"

record threshold_manager =
  config :: threshold_config
  currentProfile :: string

text \<open>\<^verbatim>\<open>new ThresholdManager()\<close>.\<close>

definition new_thresholds :: threshold_manager where
  "new_thresholds =
     \<lparr>config = \<lparr>blockThreshold = 70 / 100, warnThreshold = 50 / 100,
                 popularDomainThreshold = 90 / 100, profile = None\<rparr>,
      currentProfile = ''balanced''\<rparr>"

text \<open>\<^verbatim>\<open>ThresholdManager.getAction\<close>.\<close>

definition getAction :: "threshold_manager \<Rightarrow> jsnum \<Rightarrow> bool \<Rightarrow> action" where
  "getAction tm p isPopular =
     (if isPopular \<and> js_lt p (Fin (popularDomainThreshold (config tm))) then ALLOW
      else if js_ge p (Fin (blockThreshold (config tm))) then BLOCK
      else if js_ge p (Fin (warnThreshold (config tm))) then WARN
      else ALLOW)"

section \<open>Loading from storage\<close>

text \<open>
  A read of the key-value store gives the stored value, nothing (\<open>Inr None\<close>), or fails
  (\<open>Inl\<close>). A stored threshold configuration holds the fields that were saved.
\<close>

record stored_config =
  stored_block :: "real option"
  stored_warn :: "real option"
  stored_popular :: "real option"
  stored_profile :: "string option"

text \<open>\<^verbatim>\<open>{ ...this.config, ...result.thresholdConfig }\<close>: the stored fields win.\<close>

definition merge_config :: "threshold_config \<Rightarrow> stored_config \<Rightarrow> threshold_config" where
  "merge_config c s =
     \<lparr>blockThreshold = (case stored_block s of Some b \<Rightarrow> b | None \<Rightarrow> blockThreshold c),
      warnThreshold = (case stored_warn s of Some w \<Rightarrow> w | None \<Rightarrow> warnThreshold c),
      popularDomainThreshold =
        (case stored_popular s of Some q \<Rightarrow> q | None \<Rightarrow> popularDomainThreshold c),
      profile = (case stored_profile s of Some n \<Rightarrow> Some n | None \<Rightarrow> profile c)\<rparr>"

text \<open>
  \<^verbatim>\<open>ThresholdManager.load\<close>: the body of its \<^verbatim>\<open>try\<close>, then the method with its
  \<^verbatim>\<open>catch\<close>, which logs the error and keeps the state.
\<close>

definition thresholds_load_try ::
  "(js_error + stored_config option) \<Rightarrow> threshold_manager \<Rightarrow> js_error + threshold_manager" where
  "thresholds_load_try stored tm =
     (case stored of
        Inl e \<Rightarrow> Inl e
      | Inr None \<Rightarrow> Inr tm
      | Inr (Some s) \<Rightarrow>
          (let c = merge_config (config tm) s
           in Inr \<lparr>config = c,
                   currentProfile = (case profile c of
                                       None \<Rightarrow> ''balanced''
                                     | Some n \<Rightarrow> if n = [] then ''balanced'' else n)\<rparr>))"

definition thresholds_load ::
  "(js_error + stored_config option) \<Rightarrow> threshold_manager \<Rightarrow> js_error + threshold_manager" where
  "thresholds_load stored tm =
     (case thresholds_load_try stored tm of Inl e \<Rightarrow> Inr tm | Inr tm' \<Rightarrow> Inr tm')"

text \<open>
  \<^verbatim>\<open>Whitelist.load\<close>: its \<^verbatim>\<open>catch\<close> empties the set.
\<close>

definition whitelist_load_try ::
  "(js_error + string list option) \<Rightarrow> whitelist_state \<Rightarrow> js_error + whitelist_state" where
  "whitelist_load_try stored w =
     (case stored of
        Inl e \<Rightarrow> Inl e
      | Inr None \<Rightarrow> Inr (w\<lparr>loaded := True\<rparr>)
      | Inr (Some ds) \<Rightarrow> Inr \<lparr>domains = set ds, loaded = True\<rparr>)"

definition whitelist_load ::
  "(js_error + string list option) \<Rightarrow> whitelist_state \<Rightarrow> js_error + whitelist_state" where
  "whitelist_load stored w =
     (case whitelist_load_try stored w of
        Inl e \<Rightarrow> Inr \<lparr>domains = {}, loaded = True\<rparr>
      | Inr w' \<Rightarrow> Inr w')"

section \<open>The decision engine\<close>

record 'f decision =
  url :: string
  action :: action
  level :: level
  probability :: "jsnum option"
  confidence :: jsnum
  reason :: string
  features :: "'f option"
  cached :: bool
  timestamp :: int
  latency :: int
  error :: "string option"

record 'f engine =
  cache :: "'f decision prediction_cache"
  whitelist :: whitelist_state
  thresholds :: threshold_manager
  initialized :: bool

text \<open>
  The collaborators given to the constructor. A call returns a value, throws, or does not
  return (\<open>None\<close>). \<^verbatim>\<open>extractFeatures\<close> may return \<^verbatim>\<open>null\<close>.
\<close>

record 'f feature_extractor =
  extractFeatures :: "string \<Rightarrow> (js_error + 'f option) option"
  featuresToArray :: "'f \<Rightarrow> (js_error + jsnum list) option"

type_synonym predictor = "jsnum list \<Rightarrow> (js_error + prediction) option"

text \<open>
  What one call of \<^verbatim>\<open>decide\<close> reads from outside: the store, the clock at the places
  that read \<^verbatim>\<open>Date.now()\<close>, and the time elapsed since the start of the call when the
  decision is created.
\<close>

record env =
  stored_whitelist :: "js_error + string list option"
  stored_thresholds :: "js_error + stored_config option"
  now_get :: int
  now_set :: int
  now_decision :: int
  elapsed :: real

text \<open>\<^verbatim>\<open>new DecisionEngine(featureExtractor, predictor)\<close>.\<close>

definition new_engine :: "'f engine" where
  "new_engine = \<lparr>cache = new_cache 1000 3600000, whitelist = new_whitelist,
                  thresholds = new_thresholds, initialized = False\<rparr>"

text \<open>
  \<^verbatim>\<open>DecisionEngine.init\<close>: both loads, then the flag. An exception of a load would leave
  \<^verbatim>\<open>init\<close> as it is.
\<close>

definition init :: "env \<Rightarrow> 'f engine \<Rightarrow> js_error + 'f engine" where
  "init ev eng =
     (if initialized eng then Inr eng
      else case whitelist_load (stored_whitelist ev) (whitelist eng) of
        Inl e \<Rightarrow> Inl e
      | Inr w \<Rightarrow>
          (case thresholds_load (stored_thresholds ev) (thresholds eng) of
             Inl e \<Rightarrow> Inl e
           | Inr tm \<Rightarrow> Inr (eng\<lparr>whitelist := w, thresholds := tm, initialized := True\<rparr>)))"

text \<open>
  \<^verbatim>\<open>DecisionEngine.createDecision\<close>, with the reading of \<^verbatim>\<open>Date.now()\<close> first and the
  parameters in the order of the fields. \<^verbatim>\<open>params.error || null\<close> turns an empty message
  into \<^verbatim>\<open>null\<close>; the latency is rounded to an integer.
\<close>

definition createDecision ::
  "int \<Rightarrow> string \<Rightarrow> action \<Rightarrow> level \<Rightarrow> jsnum option \<Rightarrow> jsnum \<Rightarrow> string \<Rightarrow> 'f option \<Rightarrow> bool \<Rightarrow>
   real \<Rightarrow> string option \<Rightarrow> 'f decision" where
  "createDecision now u a l p c r f cch lat err =
     \<lparr>url = u, action = a, level = l, probability = p, confidence = c, reason = r,
      features = f, cached = cch, timestamp = now, latency = \<lfloor>lat + 1 / 2\<rfloor>,
      error = (case err of None \<Rightarrow> None | Some m \<Rightarrow> if m = [] then None else Some m)\<rparr>"

definition popularDomains :: "string list" where
  "popularDomains =
     [''google.com'', ''youtube.com'', ''facebook.com'', ''twitter.com'', ''instagram.com'',
      ''linkedin.com'', ''reddit.com'', ''amazon.com'', ''wikipedia.org'', ''netflix.com'',
      ''microsoft.com'', ''apple.com'', ''github.com'', ''stackoverflow.com'', ''medium.com'']"

text \<open>\<^verbatim>\<open>DecisionEngine.isPopularDomain\<close>.\<close>

definition isPopularDomain :: "url_parser \<Rightarrow> string \<Rightarrow> bool" where
  "isPopularDomain P u =
     (case P u of
        None \<Rightarrow> False
      | Some urlObj \<Rightarrow>
          list_ex (\<lambda>domain. hostname urlObj = domain \<or> ends_with (hostname urlObj) (''.'' @ domain))
            popularDomains)"

fun message :: "js_error \<Rightarrow> string" where
  "message (Error m) = m"

text \<open>
  The \<^verbatim>\<open>try\<close> block of \<^verbatim>\<open>decide\<close>: it ends with a decision or with an exception, and
  the engine is in the state reached by then.
\<close>

definition decide_try ::
  "url_parser \<Rightarrow> 'f feature_extractor \<Rightarrow> predictor \<Rightarrow> env \<Rightarrow> string \<Rightarrow> 'f engine \<Rightarrow>
   ((js_error + 'f decision) \<times> 'f engine) option" where
  "decide_try P fx pr ev u eng =
     (if isWhitelisted P (whitelist eng) u
      then Some (Inr (createDecision (now_decision ev) u ALLOW SAFE (Some (Fin 0)) (Fin 1)
                        ''whitelisted'' None False (elapsed ev) None), eng)
      else
        (let (hit, c) = cache_get P (cache eng) u (now_get ev);
             eng1 = eng\<lparr>cache := c\<rparr>
         in case hit of
              Some d \<Rightarrow>
                Some (Inr (createDecision (now_decision ev) (url d) (action d) (level d)
                             (probability d) (confidence d) (reason d) (features d) True
                             (elapsed ev) (error d)), eng1)
            | None \<Rightarrow>
                (case extractFeatures fx u of
                   None \<Rightarrow> None
                 | Some (Inl e) \<Rightarrow> Some (Inl e, eng1)
                 | Some (Inr None) \<Rightarrow> Some (Inl (Error ''Failed to extract features''), eng1)
                 | Some (Inr (Some f)) \<Rightarrow>
                     (case featuresToArray fx f of
                        None \<Rightarrow> None
                      | Some (Inl e) \<Rightarrow> Some (Inl e, eng1)
                      | Some (Inr featureArray) \<Rightarrow>
                          (case pr featureArray of
                             None \<Rightarrow> None
                           | Some (Inl e) \<Rightarrow> Some (Inl e, eng1)
                           | Some (Inr pd) \<Rightarrow>
                               (let isPopular = isPopularDomain P u;
                                    a = getAction (thresholds eng1) (p_probability pd) isPopular;
                                    d = createDecision (now_decision ev) u a (p_level pd)
                                          (Some (p_probability pd)) (p_confidence pd)
                                          (if isPopular then ''popular_domain_check''
                                           else ''ml_prediction'')
                                          (Some f) False (elapsed ev) None
                                in Some (Inr d, eng1\<lparr>cache := cache_set P c u d (now_set ev)\<rparr>)))))))"

text \<open>
  \<^verbatim>\<open>DecisionEngine.decide\<close>: \<^verbatim>\<open>init\<close> runs before the \<^verbatim>\<open>try\<close>, so an exception of
  \<^verbatim>\<open>init\<close> would reach the caller (\<open>Inl\<close>); the \<^verbatim>\<open>catch\<close> turns an exception of the
  \<^verbatim>\<open>try\<close> block into the fail-open decision.
\<close>

definition decide ::
  "url_parser \<Rightarrow> 'f feature_extractor \<Rightarrow> predictor \<Rightarrow> env \<Rightarrow> string \<Rightarrow> 'f engine \<Rightarrow>
   (js_error + 'f decision \<times> 'f engine) option" where
  "decide P fx pr ev u eng =
     (case init ev eng of
        Inl e \<Rightarrow> Some (Inl e)
      | Inr eng0 \<Rightarrow>
          (case decide_try P fx pr ev u eng0 of
             None \<Rightarrow> None
           | Some (Inr d, eng1) \<Rightarrow> Some (Inr (d, eng1))
           | Some (Inl e, eng1) \<Rightarrow>
               Some (Inr (createDecision (now_decision ev) u ALLOW UNKNOWN None (Fin 0) ''error''
                            None False (elapsed ev) (Some (message e)), eng1))))"

section \<open>Well-formed trees and the evaluation the specification describes\<close>

text \<open>The five arrays of a tree are parallel: of one length, with a root.\<close>

definition parallel_arrays :: "tree \<Rightarrow> bool" where
  "parallel_arrays t \<longleftrightarrow>
     0 < length (left_children t) \<and>
     length (right_children t) = length (left_children t) \<and>
     length (split_indices t) = length (left_children t) \<and>
     length (split_conditions t) = length (left_children t) \<and>
     length (base_weights t) = length (left_children t)"

definition valid_index :: "tree \<Rightarrow> int \<Rightarrow> bool" where
  "valid_index t k \<longleftrightarrow> 0 \<le> k \<and> k < int (length (left_children t))"

text \<open>Every non-leaf node's child indices are valid indices of the same tree.\<close>

definition valid_children :: "tree \<Rightarrow> bool" where
  "valid_children t \<longleftrightarrow>
     (\<forall>i < length (left_children t).
        is_leaf t (Val (int i)) \<or>
        (valid_index t (left_children t ! i) \<and> valid_index t (right_children t ! i)))"

definition well_formed :: "tree \<Rightarrow> bool" where
  "well_formed t \<longleftrightarrow> parallel_arrays t \<and> valid_children t"

text \<open>
  Every path of child links from node \<open>i\<close> ends at a leaf after fewer than \<open>k\<close> links. A
  path without a repeated node has fewer links than the tree has nodes, so the child links
  below the root are free of cycles exactly when \<open>paths_end\<close> holds at the root with the
  number of nodes.
\<close>

fun paths_end :: "nat \<Rightarrow> tree \<Rightarrow> nat \<Rightarrow> bool" where
  "paths_end 0 t i = False"
| "paths_end (Suc k) t i =
     (is_leaf t (Val (int i)) \<or>
      (paths_end k t (nat (left_children t ! i)) \<and> paths_end k t (nat (right_children t ! i))))"

definition acyclic_tree :: "tree \<Rightarrow> bool" where
  "acyclic_tree t \<longleftrightarrow> paths_end (length (left_children t)) t 0"

text \<open>The node indices at which the loop of \<^verbatim>\<open>predictTree\<close> reads the arrays.\<close>

inductive visits :: "tree \<Rightarrow> jsnum list \<Rightarrow> int js \<Rightarrow> bool" for t fs where
  root: "visits t fs (Val 0)"
| step: "visits t fs nodeIdx \<Longrightarrow> \<not> is_leaf t nodeIdx \<Longrightarrow>
         \<not> invalid_index t (next_node t fs nodeIdx) \<Longrightarrow>
         visits t fs (next_node t fs nodeIdx)"

code_pred visits .

text \<open>
  The evaluation of one tree in the words of the specification, on a tree with parallel
  arrays: \<open>tree_output t fs i w\<close> says that the walk from node \<open>i\<close> yields \<open>w\<close>. A node
  with both children -1 yields its weight; another node goes to the left child if the
  feature at its split index is below its threshold and to the right child otherwise; a
  child index outside the arrays yields 0.
\<close>

definition feature_below :: "tree \<Rightarrow> jsnum list \<Rightarrow> nat \<Rightarrow> bool" where
  "feature_below t fs i \<longleftrightarrow>
     js_lt (to_number (arr_get fs (Val (split_indices t ! i)))) (Fin (split_conditions t ! i))"

definition child :: "tree \<Rightarrow> jsnum list \<Rightarrow> nat \<Rightarrow> int" where
  "child t fs i = (if feature_below t fs i then left_children t ! i else right_children t ! i)"

inductive tree_output :: "tree \<Rightarrow> jsnum list \<Rightarrow> nat \<Rightarrow> real \<Rightarrow> bool" for t fs where
  at_leaf: "i < length (left_children t) \<Longrightarrow> left_children t ! i = - 1 \<Longrightarrow>
            right_children t ! i = - 1 \<Longrightarrow> tree_output t fs i (base_weights t ! i)"
| descend: "i < length (left_children t) \<Longrightarrow>
            \<not> (left_children t ! i = - 1 \<and> right_children t ! i = - 1) \<Longrightarrow>
            valid_index t (child t fs i) \<Longrightarrow>
            tree_output t fs (nat (child t fs i)) w \<Longrightarrow> tree_output t fs i w"
| outside: "i < length (left_children t) \<Longrightarrow>
            \<not> (left_children t ! i = - 1 \<and> right_children t ! i = - 1) \<Longrightarrow>
            \<not> valid_index t (child t fs i) \<Longrightarrow> tree_output t fs i 0"

code_pred tree_output .

section \<open>Example data\<close>

text \<open>
  A parser for the example URLs: \<^verbatim>\<open>http\<close> and \<^verbatim>\<open>https\<close> URLs made of a lower-case
  host name, a path, a query and a fragment, on which the platform's parser gives these
  components. Everything else is outside it.
\<close>

definition host_char :: "char \<Rightarrow> bool" where
  "host_char c \<longleftrightarrow> c \<in> set ''abcdefghijklmnopqrstuvwxyz0123456789.-''"

definition basic_url :: url_parser where
  "basic_url s =
     (let scheme = (if starts_with s ''https://'' then ''https:''
                    else if starts_with s ''http://'' then ''http:'' else []);
          rest = drop (length scheme + 2) s;
          host = takeWhile (\<lambda>c. c \<notin> set ''/?#'') rest;
          after = dropWhile (\<lambda>c. c \<notin> set ''/?#'') rest;
          path = takeWhile (\<lambda>c. c \<notin> set ''?#'') after;
          query = takeWhile (\<lambda>c. c \<noteq> CHR ''#'') (dropWhile (\<lambda>c. c \<notin> set ''?#'') after)
      in if scheme = [] \<or> host = [] \<or> \<not> list_all host_char host then None
         else Some \<lparr>protocol = scheme, hostname = host,
                     pathname = (if path = [] then ''/'' else path),
                     search = (if query = ''?'' then [] else query)\<rparr>)"

text \<open>A tree of three nodes: the root splits feature 0 at 1/2, the leaves weigh -20 and 20.\<close>

definition stump :: tree where
  "stump = \<lparr>left_children = [1, - 1, - 1], right_children = [2, - 1, - 1],
            split_indices = [0, 0, 0], split_conditions = [1 / 2, 0, 0],
            base_weights = [0, - 20, 20]\<rparr>"

text \<open>A single node whose two children are the node itself: all indices are valid.\<close>

definition self_loop :: tree where
  "self_loop = \<lparr>left_children = [0], right_children = [0],
                split_indices = [0], split_conditions = [0], base_weights = [0]\<rparr>"

definition loader_of :: "tree list \<Rightarrow> real \<Rightarrow> model_loader" where
  "loader_of ts b =
     \<lparr>loaded_model = Some \<lparr>trees = ts, base_score = b, num_trees = length ts\<rparr>,
      loaded_metadata = Some \<lparr>feature_names = [''domain_length''], recommended_threshold = Some (70 / 100)\<rparr>,
      isLoaded = True\<rparr>"

text \<open>
  A loaded model without trees and with base score 0, whose metadata recommends the
  threshold 0.3.
\<close>

definition lenient_loader :: model_loader where
  "lenient_loader =
     \<lparr>loaded_model = Some \<lparr>trees = [], base_score = 0, num_trees = 0\<rparr>,
      loaded_metadata = Some \<lparr>feature_names = [''domain_length''], recommended_threshold = Some (30 / 100)\<rparr>,
      isLoaded = True\<rparr>"

text \<open>The predictor of the examples: the model with the one tree \<open>stump\<close>.\<close>

definition stump_predictor :: predictor where
  "stump_predictor = predictWithConfidence exact (loader_of [stump] 0)"

text \<open>
  A cache of capacity 2 after two insertions, at times 0 and 1.
\<close>

definition two_cache :: "nat prediction_cache" where
  "two_cache =
     cache_set basic_url
       (cache_set basic_url (new_cache 2 3600000) ''https://a.example/'' 1 0)
       ''https://b.example/'' 2 1"

text \<open>
  Collaborators for the examples: a feature extractor that gives \<^verbatim>\<open>null\<close> for a string
  that does not parse and the length of the host name otherwise; an environment with an
  empty store; an initialized engine that trusts \<^verbatim>\<open>example.com\<close>.
\<close>

definition length_extractor :: "jsnum list feature_extractor" where
  "length_extractor =
     \<lparr>extractFeatures =
        (\<lambda>u. Some (Inr (case basic_url u of
                           None \<Rightarrow> None
                         | Some urlObj \<Rightarrow> Some [Fin (real (length (hostname urlObj)))]))),
      featuresToArray = (\<lambda>f. Some (Inr f))\<rparr>"

definition quiet_env :: env where
  "quiet_env = \<lparr>stored_whitelist = Inr None, stored_thresholds = Inr None,
                now_get = 1000, now_set = 1000, now_decision = 1000, elapsed = 3 / 2\<rparr>"

definition ready_engine :: "jsnum list engine" where
  "ready_engine = new_engine\<lparr>whitelist := \<lparr>domains = {''example.com''}, loaded = True\<rparr>,
                              initialized := True\<rparr>"

text \<open>
  An engine before its first \<^verbatim>\<open>decide\<close>, whose whitelist holds \<^verbatim>\<open>example.com\<close> in
  memory, and an environment whose store holds another whitelist.
\<close>

definition cold_engine :: "jsnum list engine" where
  "cold_engine = new_engine\<lparr>whitelist := \<lparr>domains = {''example.com''}, loaded = False\<rparr>\<rparr>"

definition other_env :: env where
  "other_env = quiet_env\<lparr>stored_whitelist := Inr (Some [''other.org''])\<rparr>"

text \<open>The decision of the model for \<^verbatim>\<open>https://example.com\<close>, a host name of 11 characters.\<close>

definition cold_decision :: "jsnum list decision" where
  "cold_decision =
     \<lparr>url = ''https://example.com'', action = BLOCK, level = PHISHING,
      probability = Some (Fin 1), confidence = Fin 1, reason = ''ml_prediction'',
      features = Some [Fin 11], cached = False, timestamp = 1000, latency = 2, error = None\<rparr>"

section \<open>The tree walk\<close>

subsection \<open>Reads inside a tree with parallel arrays\<close>

lemma arr_get_in: "i < length xs \<Longrightarrow> arr_get xs (Val (int i)) = Val (xs ! i)"
  by simp

lemma is_leaf_iff:
  "parallel_arrays t \<Longrightarrow> i < length (left_children t) \<Longrightarrow>
   is_leaf t (Val (int i)) \<longleftrightarrow> left_children t ! i = - 1 \<and> right_children t ! i = - 1"
  by (simp add: is_leaf_def parallel_arrays_def)

lemma goes_left_iff:
  "parallel_arrays t \<Longrightarrow> i < length (left_children t) \<Longrightarrow>
   goes_left t fs (Val (int i)) \<longleftrightarrow> feature_below t fs i"
  by (simp add: goes_left_def feature_below_def parallel_arrays_def)

lemma next_node_child:
  "parallel_arrays t \<Longrightarrow> i < length (left_children t) \<Longrightarrow>
   next_node t fs (Val (int i)) = Val (child t fs i)"
  by (simp add: next_node_def child_def goes_left_iff) (simp add: parallel_arrays_def)

lemma invalid_index_iff: "invalid_index t (Val k) \<longleftrightarrow> \<not> valid_index t k"
  by (auto simp: valid_index_def)

lemma walk_leaf:
  "parallel_arrays t \<Longrightarrow> i < length (left_children t) \<Longrightarrow> is_leaf t (Val (int i)) \<Longrightarrow>
   walk t fs (Val (int i)) = Some (Val (base_weights t ! i))"
  by (subst walk.simps) (simp add: parallel_arrays_def)

lemma walk_outside:
  "parallel_arrays t \<Longrightarrow> i < length (left_children t) \<Longrightarrow> \<not> is_leaf t (Val (int i)) \<Longrightarrow>
   \<not> valid_index t (child t fs i) \<Longrightarrow> walk t fs (Val (int i)) = Some (Val 0)"
  by (subst walk.simps) (auto simp: next_node_child valid_index_def)

lemma walk_descend:
  "parallel_arrays t \<Longrightarrow> i < length (left_children t) \<Longrightarrow> \<not> is_leaf t (Val (int i)) \<Longrightarrow>
   valid_index t (child t fs i) \<Longrightarrow>
   walk t fs (Val (int i)) = walk t fs (Val (child t fs i))"
  by (subst walk.simps) (auto simp: next_node_child valid_index_def)

subsection \<open>The loop computes the output of the specification\<close>

lemma tree_output_walk:
  assumes "tree_output t fs i w" "parallel_arrays t"
  shows "walk t fs (Val (int i)) = Some (Val w)"
  using assms
proof (induction rule: tree_output.induct)
  case (at_leaf i)
  then show ?case by (simp add: walk_leaf is_leaf_iff)
next
  case (descend i w)
  then have "child t fs i = int (nat (child t fs i))" by (simp add: valid_index_def)
  with descend show ?case by (simp add: walk_descend is_leaf_iff)
next
  case (outside i)
  then show ?case by (simp add: walk_outside is_leaf_iff)
qed

lemma add_trees_outputs:
  assumes "list_all2 (\<lambda>t w. parallel_arrays t \<and> tree_output t fs 0 w) ts ws"
  shows "add_trees A ts fs s = Some (foldl (add_with A) s (map Fin ws))"
  using assms
proof (induction ts ws arbitrary: s rule: list_all2_induct)
  case Nil
  then show ?case by simp
next
  case (Cons t ts w ws)
  from Cons.hyps(1) have "predictTree t fs = Some (Val w)"
    using tree_output_walk[of t fs 0 w] by (simp add: predictTree_def)
  with Cons.IH[of "add_with A s (Fin w)"] show ?case by simp
qed

lemma predict_loaded:
  assumes "isLoaded L" "loaded_metadata L = Some md" "loaded_model L = Some m"
    "length fs = length (feature_names md)"
  shows "predict A L fs =
     (case add_trees A (trees m) fs (Fin (base_score m)) of
        None \<Rightarrow> None | Some score \<Rightarrow> Some (Inr (round4_with A (sigmoid_with A score))))"
  using assms by (simp add: predict_def)

subsection \<open>The arithmetic that does not round\<close>

lemma rnd_exact: "rnd exact x = Fin x"
  by (simp add: exact_def)

lemma math_exp_exact: "math_exp exact x = Fin (exp x)"
  by (simp add: exact_def)

lemma faithful_exact: "faithful exact"
  by (simp add: faithful_def rnd_exact math_exp_exact)

lemma foldl_add_exact: "foldl (add_with exact) (Fin s) (map Fin ws) = Fin (s + sum_list ws)"
  by (induction ws arbitrary: s) (simp_all add: rnd_exact add.assoc)

lemma sigmoid_bounds: "0 < 1 / (1 + exp (- s :: real))" "1 / (1 + exp (- s :: real)) < 1"
proof -
  have "0 < exp (- s)" by simp
  then show "0 < 1 / (1 + exp (- s))" by (simp add: add_pos_pos)
  from \<open>0 < exp (- s)\<close> show "1 / (1 + exp (- s)) < 1" by (simp add: add_pos_pos)
qed

lemma sigmoid_exact: "sigmoid_with exact (Fin s) = Fin (1 / (1 + exp (- s)))"
proof -
  have "0 < 1 + exp (- s)" by (rule add_pos_pos) simp_all
  then have "1 + exp (- s) \<noteq> 0" by simp
  then show ?thesis by (simp add: sigmoid_with_def rnd_exact math_exp_exact)
qed

lemma round4_exact: "round4_with exact (Fin x) = Fin (of_int \<lfloor>x * 10000 + 1 / 2\<rfloor> / 10000)"
  by (simp add: round4_with_def rnd_exact)

subsection \<open>Bounds that every faithful arithmetic keeps\<close>

lemma rnd_not_nan:
  assumes "faithful A"
  shows "rnd A x \<noteq> NaN"
proof
  assume n: "rnd A x = NaN"
  from assms have "js_le (rnd A x) (rnd A x)" unfolding faithful_def by blast
  with n show False by simp
qed

lemma rnd_between:
  assumes "faithful A" and "rnd A a = Fin a" "rnd A b = Fin b" and "a \<le> x" "x \<le> b"
  shows "\<exists>q. rnd A x = Fin q \<and> a \<le> q \<and> q \<le> b"
proof -
  from assms(1,4,5) have "js_le (rnd A a) (rnd A x)" "js_le (rnd A x) (rnd A b)"
    unfolding faithful_def by blast+
  with assms(2,3) have "js_le (Fin a) (rnd A x)" "js_le (rnd A x) (Fin b)" by simp_all
  then show ?thesis by (cases "rnd A x") simp_all
qed

lemma rnd_unit:
  assumes "faithful A" "0 \<le> x" "x \<le> 1"
  shows "\<exists>q. rnd A x = Fin q \<and> 0 \<le> q \<and> q \<le> 1"
proof -
  from assms(1) have "rnd A 0 = Fin 0" "rnd A 1 = Fin 1" by (simp_all add: faithful_def)
  from rnd_between[OF assms(1) this assms(2,3)] show ?thesis .
qed

lemma rnd_upto_10000:
  assumes "faithful A" "0 \<le> x" "x \<le> 10000"
  shows "\<exists>q. rnd A x = Fin q \<and> 0 \<le> q \<and> q \<le> 10000"
proof -
  from assms(1) have "rnd A 0 = Fin 0" "rnd A 10000 = Fin 10000" by (simp_all add: faithful_def)
  from rnd_between[OF assms(1) this assms(2,3)] show ?thesis .
qed

lemma rnd_from_1:
  assumes "faithful A" "1 \<le> x"
  shows "rnd A x = PInf \<or> (\<exists>d. rnd A x = Fin d \<and> 1 \<le> d)"
proof -
  from assms have "js_le (rnd A 1) (rnd A x)" unfolding faithful_def by blast
  with assms(1) have "js_le (Fin 1) (rnd A x)" by (simp add: faithful_def)
  then show ?thesis by (cases "rnd A x") simp_all
qed

lemma exp_with_nonneg:
  assumes "faithful A" "s \<noteq> NaN"
  shows "exp_with A s = PInf \<or> (\<exists>e. exp_with A s = Fin e \<and> 0 \<le> e)"
proof (cases s)
  case (Fin x)
  from assms(1) have "js_le (Fin 0) (math_exp A x)" unfolding faithful_def by blast
  then show ?thesis unfolding Fin by (cases "math_exp A x") simp_all
qed (use assms(2) in simp_all)

lemma sigmoid_unit:
  assumes "faithful A" "s \<noteq> NaN"
  shows "\<exists>q. sigmoid_with A s = Fin q \<and> 0 \<le> q \<and> q \<le> 1"
proof -
  from assms(2) have "js_neg s \<noteq> NaN" by (cases s) simp_all
  from exp_with_nonneg[OF assms(1) this]
  consider "exp_with A (js_neg s) = PInf"
    | e where "exp_with A (js_neg s) = Fin e" "0 \<le> e" by blast
  then have "add_with A (Fin 1) (exp_with A (js_neg s)) = PInf \<or>
      (\<exists>d. add_with A (Fin 1) (exp_with A (js_neg s)) = Fin d \<and> 1 \<le> d)"
  proof cases
    case 1
    then show ?thesis by simp
  next
    case 2
    from 2(2) have "1 \<le> 1 + e" by simp
    from rnd_from_1[OF assms(1) this] show ?thesis by (simp add: 2(1))
  qed
  then consider "add_with A (Fin 1) (exp_with A (js_neg s)) = PInf"
    | d where "add_with A (Fin 1) (exp_with A (js_neg s)) = Fin d" "1 \<le> d" by blast
  then show ?thesis
  proof cases
    case 1
    then show ?thesis by (simp add: sigmoid_with_def)
  next
    case 2
    from 2(2) have "0 \<le> 1 / d" "1 / d \<le> 1" "d \<noteq> 0" by simp_all
    from rnd_unit[OF assms(1) this(1,2)] \<open>d \<noteq> 0\<close> show ?thesis
      by (simp add: sigmoid_with_def 2(1))
  qed
qed

lemma round4_unit:
  assumes "0 \<le> x" "x \<le> (10000::real)"
  shows "0 \<le> of_int \<lfloor>x + 1 / 2\<rfloor> / (10000::real)" "of_int \<lfloor>x + 1 / 2\<rfloor> / (10000::real) \<le> 1"
proof -
  from assms have "0 \<le> \<lfloor>x + 1 / 2\<rfloor>" by simp
  then show "0 \<le> of_int \<lfloor>x + 1 / 2\<rfloor> / (10000::real)" by simp
  from assms have "x + 1 / 2 < 10001" by simp
  then have "\<lfloor>x + 1 / 2\<rfloor> < 10001" by (simp add: floor_less_iff)
  then have "\<lfloor>x + 1 / 2\<rfloor> \<le> 10000" by simp
  then have "(of_int \<lfloor>x + 1 / 2\<rfloor> :: real) \<le> 10000" by linarith
  then show "of_int \<lfloor>x + 1 / 2\<rfloor> / (10000::real) \<le> 1" by simp
qed

lemma round4_with_unit:
  assumes "faithful A" "0 \<le> q" "q \<le> 1"
  shows "\<exists>p. round4_with A (Fin q) = Fin p \<and> 0 \<le> p \<and> p \<le> 1"
proof -
  from assms(2,3) have "0 \<le> q * 10000" "q * 10000 \<le> 10000" by simp_all
  from rnd_upto_10000[OF assms(1) this]
  obtain y where y: "rnd A (q * 10000) = Fin y" "0 \<le> y" "y \<le> 10000" by blast
  from round4_unit[OF y(2,3)] rnd_unit[OF assms(1)]
  have "\<exists>p. rnd A (of_int \<lfloor>y + 1 / 2\<rfloor> / 10000) = Fin p \<and> 0 \<le> p \<and> p \<le> 1" by blast
  then show ?thesis by (simp add: round4_with_def y(1))
qed

lemma round4_sigmoid_unit:
  assumes "faithful A" "s \<noteq> NaN"
  shows "\<exists>p. round4_with A (sigmoid_with A s) = Fin p \<and> 0 \<le> p \<and> p \<le> 1"
proof -
  from sigmoid_unit[OF assms] obtain q where "sigmoid_with A s = Fin q" "0 \<le> q" "q \<le> 1"
    by blast
  with round4_with_unit[OF assms(1), of q] show ?thesis by simp
qed

lemma add_with_not_nan:
  assumes "faithful A" "s \<noteq> NaN"
  shows "add_with A s (Fin w) \<noteq> NaN"
  using assms by (cases s) (simp_all add: rnd_not_nan)

lemma foldl_add_not_nan:
  assumes "faithful A"
  shows "s \<noteq> NaN \<Longrightarrow> foldl (add_with A) s (map Fin ws) \<noteq> NaN"
proof (induction ws arbitrary: s)
  case Nil
  then show ?case by simp
next
  case (Cons w ws)
  from add_with_not_nan[OF assms Cons.prems] Cons.IH show ?case by simp
qed

subsection \<open>The example trees, and walks that end\<close>

lemma stump_right:
  assumes "1 / 2 \<le> x"
  shows "tree_output stump [Fin x] 0 20"
proof -
  have "tree_output stump [Fin x] 2 (base_weights stump ! 2)"
    by (rule tree_output.at_leaf) (simp_all add: stump_def)
  then have leaf: "tree_output stump [Fin x] 2 20" by (simp add: stump_def)
  from assms have c: "child stump [Fin x] 0 = 2"
    by (simp add: stump_def child_def feature_below_def)
  show ?thesis
    by (rule tree_output.descend) (simp_all add: c leaf, simp_all add: stump_def valid_index_def)
qed

lemma stump_output: "tree_output stump [Fin 1] 0 20"
  by (rule stump_right) simp

lemma stump_parallel: "parallel_arrays stump"
  by (simp add: parallel_arrays_def stump_def)

lemma exp_minus_20: "exp (- 20 :: real) \<le> 1 / 2 ^ 20"
proof -
  have "(2::real) \<le> exp 1" using exp_ge_add_one_self[of "1::real"] by simp
  then have "(2::real) ^ 20 \<le> exp 1 ^ 20" by (rule power_mono) simp
  also have "exp (1::real) ^ 20 = exp 20" using exp_of_nat_mult[of 20 "1::real"] by simp
  finally have "(2::real) ^ 20 \<le> exp 20" .
  then have "inverse (exp (20::real)) \<le> inverse (2 ^ 20)" by (intro le_imp_inverse_le) simp_all
  then show ?thesis by (simp add: exp_minus inverse_eq_divide)
qed

lemma round4_sigmoid_20: "round4_with exact (sigmoid_with exact (Fin 20)) = Fin 1"
proof -
  let ?e = "exp (- 20 :: real)"
  have e0: "0 < ?e" by simp
  have e1: "?e \<le> 1 / 2 ^ 20" by (rule exp_minus_20)
  have pos: "0 < 1 + ?e" by (rule add_pos_pos) simp_all
  have lo: "10000 \<le> 1 / (1 + ?e) * 10000 + 1 / 2"
  proof -
    have "(1 + ?e) * (19999 / 2) \<le> 10000" using e1 by simp
    then have "19999 / 2 \<le> 10000 / (1 + ?e)" using pos by (simp add: pos_le_divide_eq mult.commute)
    then show ?thesis by simp
  qed
  have hi: "1 / (1 + ?e) * 10000 + 1 / 2 < 10001"
  proof -
    have "1 / (1 + ?e) < 1" by (rule sigmoid_bounds)
    then show ?thesis by linarith
  qed
  have "\<lfloor>1 / (1 + ?e) * 10000 + 1 / 2\<rfloor> = 10000"
    using lo hi by (intro floor_unique) simp_all
  then show ?thesis by (simp only: sigmoid_exact round4_exact) simp
qed

lemma sigmoid_20_less: "sigmoid_with exact (Fin 20) \<noteq> Fin 1"
proof -
  have "1 / (1 + exp (- 20 :: real)) < 1" by (rule sigmoid_bounds)
  then show ?thesis by (simp only: sigmoid_exact) simp
qed

lemma stump_predict_right:
  assumes "1 / 2 \<le> x"
  shows "predict exact (loader_of [stump] 0) [Fin x] = Some (Inr (Fin 1))"
proof -
  have "list_all2 (\<lambda>t w. parallel_arrays t \<and> tree_output t [Fin x] 0 w) [stump] [20]"
    by (simp add: stump_right[OF assms] stump_parallel)
  from add_trees_outputs[OF this, of exact "Fin 0"]
  have "add_trees exact [stump] [Fin x] (Fin 0) = Some (Fin 20)" by (simp add: rnd_exact)
  then show ?thesis by (simp add: predict_def loader_of_def round4_sigmoid_20)
qed

lemma stump_predict: "predict exact (loader_of [stump] 0) [Fin 1] = Some (Inr (Fin 1))"
  by (rule stump_predict_right) simp

lemma child_valid:
  assumes "well_formed t" "i < length (left_children t)" "\<not> is_leaf t (Val (int i))"
  shows "valid_index t (child t fs i)"
  using assms by (auto simp: well_formed_def valid_children_def child_def)

lemma walk_reaches_leaf:
  assumes wf: "well_formed t"
  shows "paths_end k t i \<Longrightarrow> i < length (left_children t) \<Longrightarrow>
         \<exists>j < length (left_children t). walk t fs (Val (int i)) = Some (Val (base_weights t ! j))"
proof (induction k arbitrary: i)
  case 0
  then show ?case by simp
next
  case (Suc k)
  from wf have par: "parallel_arrays t" by (simp add: well_formed_def)
  show ?case
  proof (cases "is_leaf t (Val (int i))")
    case True
    with par Suc.prems(2) show ?thesis by (auto simp: walk_leaf)
  next
    case False
    from child_valid[OF wf Suc.prems(2) False, of fs]
    have v: "valid_index t (child t fs i)" .
    then obtain j where j: "child t fs i = int j" "j < length (left_children t)"
      by (auto simp: valid_index_def intro: that[of "nat (child t fs i)"])
    from Suc.prems(1) False have "paths_end k t (nat (child t fs i))"
      by (auto simp: child_def)
    with j have "paths_end k t j" by simp
    from Suc.IH[OF this j(2)] obtain l where
      l: "l < length (left_children t)" "walk t fs (Val (int j)) = Some (Val (base_weights t ! l))"
      by blast
    from walk_descend[OF par Suc.prems(2) False v, of ] j(1) l show ?thesis by auto
  qed
qed

lemma predictTree_returns:
  assumes "well_formed t" "acyclic_tree t"
  shows "\<exists>w. predictTree t fs = Some (Val w)"
proof -
  from assms(1) have "0 < length (left_children t)" by (simp add: well_formed_def parallel_arrays_def)
  from walk_reaches_leaf[OF assms(1) assms(2)[unfolded acyclic_tree_def] this, of fs]
  show ?thesis by (auto simp: predictTree_def)
qed

lemma add_trees_returns:
  assumes "faithful A" "\<forall>t \<in> set ts. well_formed t \<and> acyclic_tree t"
  shows "s \<noteq> NaN \<Longrightarrow> \<exists>r. add_trees A ts fs s = Some r \<and> r \<noteq> NaN"
  using assms(2)
proof (induction ts arbitrary: s)
  case Nil
  then show ?case by simp
next
  case (Cons t ts)
  then obtain w where w: "predictTree t fs = Some (Val w)"
    using predictTree_returns[of t fs] by auto
  from add_with_not_nan[OF assms(1) Cons.prems(1)] have "add_with A s (Fin w) \<noteq> NaN" .
  from Cons.IH[OF this] Cons.prems(2) w show ?case by simp
qed

lemma visits_in_range:
  assumes wf: "well_formed t" and v: "visits t fs nodeIdx"
  shows "\<exists>i < length (left_children t). nodeIdx = Val (int i)"
  using v
proof (induction rule: visits.induct)
  case root
  from wf show ?case by (intro exI[of _ 0]) (simp add: well_formed_def parallel_arrays_def)
next
  case (step nodeIdx)
  then obtain i where i: "i < length (left_children t)" "nodeIdx = Val (int i)" by blast
  from wf have par: "parallel_arrays t" by (simp add: well_formed_def)
  from child_valid[OF wf i(1), of fs] step.hyps(2) i(2)
  have "valid_index t (child t fs i)" by simp
  then have "nat (child t fs i) < length (left_children t)" "child t fs i = int (nat (child t fs i))"
    by (auto simp: valid_index_def)
  with next_node_child[OF par i(1), of fs] i(2) show ?case by auto
qed

lemma tie_goes_right:
  assumes "parallel_arrays t" "i < length (left_children t)"
    "arr_get fs (Val (split_indices t ! i)) = Val (Fin (split_conditions t ! i))"
  shows "next_node t fs (Val (int i)) = Val (right_children t ! i)"
  using assms by (simp add: next_node_child child_def feature_below_def)

lemma nan_goes_right:
  assumes "parallel_arrays t" "i < length (left_children t)"
    "to_number (arr_get fs (Val (split_indices t ! i))) = NaN"
  shows "next_node t fs (Val (int i)) = Val (right_children t ! i)"
  using assms by (simp add: next_node_child child_def feature_below_def)

lemma stump_well_formed: "well_formed stump"
  by (simp add: well_formed_def parallel_arrays_def valid_children_def stump_def is_leaf_def
      valid_index_def All_less_Suc)

lemma stump_acyclic: "acyclic_tree stump"
  by (simp add: acyclic_tree_def stump_def numeral_3_eq_3 is_leaf_def)

lemma self_loop_steps:
  "\<not> is_leaf self_loop (Val 0)" "next_node self_loop fs (Val 0) = Val 0"
  by (simp_all add: self_loop_def is_leaf_def next_node_def)

lemma self_loop_walk:
  assumes "walk t fs nodeIdx = Some y" shows "\<not> (t = self_loop \<and> nodeIdx = Val 0)"
proof (rule walk.raw_induct[where P = "\<lambda>t fs i y. \<not> (t = self_loop \<and> i = Val 0)", OF _ assms])
  fix w :: "tree \<Rightarrow> jsnum list \<Rightarrow> int js \<Rightarrow> real js option" and t fs i y
  assume IH: "\<And>t fs i y. w t fs i = Some y \<Longrightarrow> \<not> (t = self_loop \<and> i = Val 0)"
    and eq: "(if is_leaf t i then Some (arr_get (base_weights t) i)
      else if invalid_index t (next_node t fs i) then Some (Val 0)
           else w t fs (next_node t fs i)) = Some y"
  show "\<not> (t = self_loop \<and> i = Val 0)"
  proof
    assume "t = self_loop \<and> i = Val 0"
    then have t: "t = self_loop" and i: "i = Val 0" by auto
    have "w self_loop fs (Val 0) = Some y"
      using eq unfolding t i self_loop_steps(2) by (simp add: self_loop_def is_leaf_def)
    with IH show False by blast
  qed
qed

lemma self_loop_diverges: "predictTree self_loop fs = None"
  using self_loop_walk[of self_loop fs "Val 0"]
  by (cases "predictTree self_loop fs") (auto simp: predictTree_def)

section \<open>The predictor\<close>

text \<open>
  Claim C2, as amended. With the model loaded, a feature vector of the declared length and
  trees whose five node arrays have one length, \<^verbatim>\<open>predict\<close> returns the sigmoid of the
  score, rounded to four decimals by \<^verbatim>\<open>Math.round(p * 10000) / 10000\<close>, all of it in the
  arithmetic of the doubles: the score is the base score with the outputs of the trees
  added one by one in the order of the trees, each sum rounded, and the sigmoid is
  \<^verbatim>\<open>1.0 / (1.0 + Math.exp(-score))\<close>. The output of a tree is the one \<open>tree_output\<close>
  describes: the weight of the leaf reached from node 0, where a feature below the
  threshold goes left and anything else (equality too) goes right, or 0 when a child index
  falls outside the arrays. In a faithful arithmetic the result is a number between 0 and 1.
\<close>

theorem predict_rounded_sigmoid:
  assumes "isLoaded L" "loaded_metadata L = Some md" "loaded_model L = Some m"
    and "length fs = length (feature_names md)"
    and "list_all2 (\<lambda>t w. parallel_arrays t \<and> tree_output t fs 0 w) (trees m) ws"
  shows "predict A L fs =
           Some (Inr (round4_with A (sigmoid_with A
                   (foldl (add_with A) (Fin (base_score m)) (map Fin ws))))) \<and>
         (faithful A \<longrightarrow> (\<exists>p. predict A L fs = Some (Inr (Fin p)) \<and> 0 \<le> p \<and> p \<le> 1))"
proof -
  let ?score = "foldl (add_with A) (Fin (base_score m)) (map Fin ws)"
  have e: "predict A L fs = Some (Inr (round4_with A (sigmoid_with A ?score)))"
    using assms(1-4) add_trees_outputs[OF assms(5), of A "Fin (base_score m)"]
    by (simp add: predict_loaded)
  have "\<exists>p. predict A L fs = Some (Inr (Fin p)) \<and> 0 \<le> p \<and> p \<le> 1" if f: "faithful A"
  proof -
    from foldl_add_not_nan[OF f, of "Fin (base_score m)" ws] have "?score \<noteq> NaN" by simp
    from round4_sigmoid_unit[OF f this] e show ?thesis by auto
  qed
  with e show ?thesis by blast
qed

theorem predict_rounded_sigmoid_witness:
  "isLoaded (loader_of [stump] 0) \<and>
   length [Fin 1] = length [''domain_length''] \<and>
   list_all2 (\<lambda>t w. parallel_arrays t \<and> tree_output t [Fin 1] 0 w) [stump] [20] \<and>
   faithful exact \<and>
   predict exact (loader_of [stump] 0) [Fin 1] =
     Some (Inr (round4_with exact (sigmoid_with exact
             (foldl (add_with exact) (Fin 0) (map Fin [20]))))) \<and>
   (\<exists>p. predict exact (loader_of [stump] 0) [Fin 1] = Some (Inr (Fin p)) \<and> 0 \<le> p \<and> p \<le> 1)"
proof -
  let ?md = "\<lparr>feature_names = [''domain_length''], recommended_threshold = Some (70 / 100)\<rparr>"
  let ?m = "\<lparr>trees = [stump], base_score = 0, num_trees = length [stump]\<rparr>"
  have L: "isLoaded (loader_of [stump] 0)" "loaded_metadata (loader_of [stump] 0) = Some ?md"
    "loaded_model (loader_of [stump] 0) = Some ?m" "length [Fin 1] = length (feature_names ?md)"
    by (simp_all add: loader_of_def)
  have h: "list_all2 (\<lambda>t w. parallel_arrays t \<and> tree_output t [Fin 1] 0 w) [stump] [20]"
    by (simp add: stump_output stump_parallel)
  then have h': "list_all2 (\<lambda>t w. parallel_arrays t \<and> tree_output t [Fin 1] 0 w) (trees ?m) [20]"
    by simp
  note T = predict_rounded_sigmoid[OF L h', of exact]
  from T have "predict exact (loader_of [stump] 0) [Fin 1] =
     Some (Inr (round4_with exact (sigmoid_with exact
             (foldl (add_with exact) (Fin (base_score ?m)) (map Fin [20])))))" by blast
  then have e: "predict exact (loader_of [stump] 0) [Fin 1] =
     Some (Inr (round4_with exact (sigmoid_with exact
             (foldl (add_with exact) (Fin 0) (map Fin [20])))))" by simp
  from T faithful_exact
  have "\<exists>p. predict exact (loader_of [stump] 0) [Fin 1] = Some (Inr (Fin p)) \<and> 0 \<le> p \<and> p \<le> 1"
    by blast
  with e h L(1,4) faithful_exact show ?thesis by simp
qed

text \<open>
  The claim as stated, without the rounding to four decimals, fails: with a score of 20
  the sigmoid is below 1 and \<^verbatim>\<open>predict\<close> returns exactly 1. The example is computed
  without rounding the sum, the exponential and the quotient; the doubles round them by
  less than one part in \<open>10\<^sup>1\<^sup>5\<close>, and the sigmoid of 20 is two parts in \<open>10\<^sup>9\<close> below 1.
\<close>

theorem predict_sigmoid_counterexample:
  "tree_output stump [Fin 1] 0 20 \<and>
   predict exact (loader_of [stump] 0) [Fin 1] = Some (Inr (Fin 1)) \<and>
   sigmoid_with exact (add_with exact (Fin 0) (Fin 20)) \<noteq> Fin 1"
  using stump_predict sigmoid_20_less stump_output by (simp add: rnd_exact)

text \<open>
  Claim C6, as amended. For a loaded model whose trees are well formed (parallel arrays,
  every non-leaf node's child indices valid) and free of cycles below the root, and a
  feature vector of the declared length with any values, NaN and the infinities included,
  \<^verbatim>\<open>predict\<close> returns a finite number between 0 and 1, in every faithful arithmetic (a
  sum of weights may overflow to an infinity there: the sigmoid of it is 0 or 1); the loop
  reads the node arrays only at indices inside them; and a node whose feature is NaN sends
  the walk to its right child.
\<close>

theorem predict_terminates:
  assumes "isLoaded L" "loaded_metadata L = Some md" "loaded_model L = Some m"
    and "length fs = length (feature_names md)"
    and "\<forall>t \<in> set (trees m). well_formed t \<and> acyclic_tree t"
    and "faithful A"
  shows "(\<exists>p. predict A L fs = Some (Inr (Fin p)) \<and> 0 \<le> p \<and> p \<le> 1) \<and>
         (\<forall>t \<in> set (trees m). \<forall>nodeIdx. visits t fs nodeIdx \<longrightarrow>
            (\<exists>i < length (left_children t). nodeIdx = Val (int i))) \<and>
         (\<forall>t \<in> set (trees m). \<forall>i < length (left_children t).
            to_number (arr_get fs (Val (split_indices t ! i))) = NaN \<longrightarrow>
            next_node t fs (Val (int i)) = Val (right_children t ! i))"
proof (intro conjI ballI allI impI)
  from add_trees_returns[OF assms(6,5), of "Fin (base_score m)" fs]
  obtain r where r: "add_trees A (trees m) fs (Fin (base_score m)) = Some r" "r \<noteq> NaN"
    by auto
  with assms(1-4) have "predict A L fs = Some (Inr (round4_with A (sigmoid_with A r)))"
    by (simp add: predict_loaded)
  with round4_sigmoid_unit[OF assms(6) r(2)]
  show "\<exists>p. predict A L fs = Some (Inr (Fin p)) \<and> 0 \<le> p \<and> p \<le> 1"
    by auto
next
  fix t nodeIdx assume "t \<in> set (trees m)" "visits t fs nodeIdx"
  with assms(5) show "\<exists>i < length (left_children t). nodeIdx = Val (int i)"
    by (auto intro: visits_in_range)
next
  fix t i assume "t \<in> set (trees m)" "i < length (left_children t)"
    "to_number (arr_get fs (Val (split_indices t ! i))) = NaN"
  with assms(5) show "next_node t fs (Val (int i)) = Val (right_children t ! i)"
    by (auto intro: nan_goes_right simp: well_formed_def)
qed

theorem predict_terminates_witness:
  "isLoaded (loader_of [stump] 0) \<and> length [NaN] = length [''domain_length''] \<and>
   well_formed stump \<and> acyclic_tree stump \<and> faithful exact \<and>
   (\<exists>p. predict exact (loader_of [stump] 0) [NaN] = Some (Inr (Fin p)) \<and> 0 \<le> p \<and> p \<le> 1) \<and>
   next_node stump [NaN] (Val 0) = Val 2"
proof -
  let ?md = "\<lparr>feature_names = [''domain_length''], recommended_threshold = Some (70 / 100)\<rparr>"
  let ?m = "\<lparr>trees = [stump], base_score = 0, num_trees = length [stump]\<rparr>"
  have L: "isLoaded (loader_of [stump] 0)" "loaded_metadata (loader_of [stump] 0) = Some ?md"
    "loaded_model (loader_of [stump] 0) = Some ?m" "length [NaN] = length (feature_names ?md)"
    by (simp_all add: loader_of_def)
  have h: "\<forall>t \<in> set (trees ?m). well_formed t \<and> acyclic_tree t"
    by (simp add: stump_well_formed stump_acyclic)
  note T = predict_terminates[OF L h faithful_exact]
  from T have ret: "\<exists>p. predict exact (loader_of [stump] 0) [NaN] = Some (Inr (Fin p)) \<and> 0 \<le> p \<and> p \<le> 1"
    by blast
  have "stump \<in> set (trees ?m)" by simp
  with T have "\<forall>i < length (left_children stump).
      to_number (arr_get [NaN] (Val (split_indices stump ! i))) = NaN \<longrightarrow>
      next_node stump [NaN] (Val (int i)) = Val (right_children stump ! i)" by blast
  moreover have "0 < length (left_children stump)" by (simp add: stump_def)
  ultimately have "to_number (arr_get [NaN] (Val (split_indices stump ! 0))) = NaN \<longrightarrow>
      next_node stump [NaN] (Val (int 0)) = Val (right_children stump ! 0)"
    by blast
  then have "next_node stump [NaN] (Val 0) = Val 2" by (simp add: stump_def)
  with ret L(1,4) stump_well_formed stump_acyclic faithful_exact show ?thesis by simp
qed

text \<open>
  Valid child indices alone do not make the walk end: on a node that is its own child the
  loop never returns, whatever the arithmetic.
\<close>

theorem predict_terminates_counterexample:
  "well_formed self_loop \<and> length [Fin 0] = length [''domain_length''] \<and>
   isLoaded (loader_of [self_loop] 0) \<and>
   predict exact (loader_of [self_loop] 0) [Fin 0] = None"
proof -
  have "well_formed self_loop"
    by (simp add: well_formed_def parallel_arrays_def valid_children_def self_loop_def valid_index_def)
  moreover have "predict exact (loader_of [self_loop] 0) [Fin 0] = None"
    by (simp add: predict_def loader_of_def self_loop_diverges)
  ultimately show ?thesis by (simp add: loader_of_def)
qed

text \<open>
  Claim C9. When the length of the feature vector differs from the number of feature names
  in the loaded metadata, \<^verbatim>\<open>predict\<close> throws at once, whatever the model holds (the error
  names both lengths, or says that the model is not loaded), and it returns no value: the
  vector is never padded or cut to fit.
\<close>

theorem predict_rejects_wrong_length:
  assumes "loaded_metadata L = Some md" "length fs \<noteq> length (feature_names md)"
  shows "predict A L fs =
           Some (Inl (if isLoaded L then length_error (length (feature_names md)) (length fs)
                      else Error ''Model not loaded'')) \<and>
         (\<forall>p. predict A L fs \<noteq> Some (Inr p))"
  using assms by (simp add: predict_def)

theorem predict_rejects_wrong_length_witness:
  "loaded_metadata (loader_of [self_loop] 0) =
     Some \<lparr>feature_names = [''domain_length''], recommended_threshold = Some (70 / 100)\<rparr> \<and>
   length [Fin 1, Fin 2] \<noteq> length [''domain_length''] \<and>
   predict exact (loader_of [self_loop] 0) [Fin 1, Fin 2] =
     Some (Inl (Error ''Expected 1 features, got 2''))"
  using predict_rejects_wrong_length[of "loader_of [self_loop] 0"
      "\<lparr>feature_names = [''domain_length''], recommended_threshold = Some (70 / 100)\<rparr>" "[Fin 1, Fin 2]" exact]
  by (simp add: loader_of_def length_error_def show_nat.simps)


subsection \<open>Levels and confidence\<close>

lemma predict_returns_loaded:
  assumes "predict A L fs = Some (Inr p)"
  shows "\<exists>md. loaded_metadata L = Some md"
  using assms by (cases "loaded_metadata L") (simp_all add: predict_def split: if_splits)

lemma risk_level_cases:
  "(risk_level A p t = PHISHING \<longleftrightarrow> js_ge p t) \<and>
   (risk_level A p t = SUSPICIOUS \<longleftrightarrow>
      js_ge p (sub_with A t (literal A (20 / 100))) \<and> js_lt p t) \<and>
   (risk_level A p t = SAFE \<longleftrightarrow>
      \<not> js_ge p t \<and> \<not> js_ge p (sub_with A t (literal A (20 / 100))))"
proof -
  have "js_lt p t \<longleftrightarrow> \<not> js_ge p t" if "js_ge p (sub_with A t (literal A (20 / 100)))"
    using that by (cases p; cases t) auto
  then show ?thesis by (auto simp: risk_level_def)
qed

lemma lenient_predict: "predict exact lenient_loader [Fin 3] = Some (Inr (Fin (1 / 2)))"
  by (simp add: predict_def lenient_loader_def sigmoid_with_def round4_with_def rnd_exact
      math_exp_exact)

text \<open>
  Claim C5, as amended. When \<^verbatim>\<open>predict\<close> returns a probability, \<^verbatim>\<open>predictWithConfidence\<close>
  returns an object with that probability. The threshold of the levels is the recommended
  threshold of the model's metadata, 0.70 when the metadata has none (or 0); the block
  threshold of the threshold manager plays no part. The level is PHISHING exactly when the
  probability is at or above the threshold, SUSPICIOUS exactly when it is below the
  threshold and at or above the double \<^verbatim>\<open>threshold - 0.20\<close>, and SAFE otherwise. The
  confidence is the probability, or the double \<^verbatim>\<open>1 - probability\<close> at level SAFE, rounded
  to four decimals by \<^verbatim>\<open>Math.round(c * 10000) / 10000\<close>.
\<close>

theorem predictWithConfidence_level:
  assumes "predict A L fs = Some (Inr p)"
  shows "\<exists>md r. loaded_metadata L = Some md \<and>
           predictWithConfidence A L fs = Some (Inr r) \<and>
           p_probability r = p \<and>
           p_threshold r =
             (case recommended_threshold md of
                None \<Rightarrow> literal A (70 / 100)
              | Some t \<Rightarrow> if t = 0 then literal A (70 / 100) else Fin t) \<and>
           (p_level r = PHISHING \<longleftrightarrow> js_ge p (p_threshold r)) \<and>
           (p_level r = SUSPICIOUS \<longleftrightarrow>
              js_ge p (sub_with A (p_threshold r) (literal A (20 / 100))) \<and>
              js_lt p (p_threshold r)) \<and>
           (p_level r = SAFE \<longleftrightarrow>
              \<not> js_ge p (p_threshold r) \<and>
              \<not> js_ge p (sub_with A (p_threshold r) (literal A (20 / 100)))) \<and>
           p_confidence r =
             round4_with A (if p_level r = SAFE then sub_with A (Fin 1) p else p)"
proof -
  from predict_returns_loaded[OF assms] obtain md where md: "loaded_metadata L = Some md"
    by blast
  let ?t = "case recommended_threshold md of
              None \<Rightarrow> literal A (70 / 100)
            | Some t \<Rightarrow> if t = 0 then literal A (70 / 100) else Fin t"
  let ?lvl = "risk_level A p ?t"
  let ?r = "\<lparr>p_probability = p,
      p_confidence = round4_with A (if ?lvl = SAFE then sub_with A (Fin 1) p else p),
      p_level = ?lvl, p_threshold = ?t\<rparr>"
  have t: "getThreshold A L = ?t" by (simp add: getThreshold_def md)
  have r: "predictWithConfidence A L fs = Some (Inr ?r)"
    by (simp add: predictWithConfidence_def assms Let_def t)
  have "p_probability ?r = p" "p_threshold ?r = ?t" "p_level ?r = ?lvl"
    "p_confidence ?r = round4_with A (if p_level ?r = SAFE then sub_with A (Fin 1) p else p)"
    by simp_all
  with risk_level_cases[of A p ?t] md r show ?thesis by (intro exI[of _ md] exI[of _ ?r]) simp
qed

theorem predictWithConfidence_level_witness:
  "predict exact (loader_of [stump] 0) [Fin 1] = Some (Inr (Fin 1)) \<and>
   (\<exists>r. predictWithConfidence exact (loader_of [stump] 0) [Fin 1] = Some (Inr r) \<and>
        p_probability r = Fin 1 \<and> p_threshold r = Fin (70 / 100) \<and>
        p_level r = PHISHING \<and> p_confidence r = Fin 1)"
proof -
  from predictWithConfidence_level[OF stump_predict]
  obtain md r where r: "loaded_metadata (loader_of [stump] 0) = Some md"
    "predictWithConfidence exact (loader_of [stump] 0) [Fin 1] = Some (Inr r)"
    "p_probability r = Fin 1"
    "p_threshold r =
       (case recommended_threshold md of
          None \<Rightarrow> literal exact (70 / 100)
        | Some t \<Rightarrow> if t = 0 then literal exact (70 / 100) else Fin t)"
    "p_level r = PHISHING \<longleftrightarrow> js_ge (Fin 1) (p_threshold r)"
    "p_confidence r =
       round4_with exact (if p_level r = SAFE then sub_with exact (Fin 1) (Fin 1) else Fin 1)"
    by blast
  from r(1) have md: "md = \<lparr>feature_names = [''domain_length''], recommended_threshold = Some (70 / 100)\<rparr>"
    by (simp add: loader_of_def)
  from r(4) have t: "p_threshold r = Fin (70 / 100)" by (simp add: md)
  with r(5) have l: "p_level r = PHISHING" by simp
  with r(6) have "p_confidence r = Fin 1" by (simp add: round4_exact)
  with r(2,3) t l stump_predict show ?thesis by blast
qed

text \<open>
  The claim as stated, with the block threshold of the threshold manager, fails: under the
  default configuration (block threshold 0.70) and a model that recommends the threshold
  0.3, the probability 0.5 is below the block threshold and the level is PHISHING. Every
  operation of this run is exact on doubles.
\<close>

theorem predictWithConfidence_counterexample:
  "blockThreshold (config new_thresholds) = 70 / 100 \<and>
   predictWithConfidence exact lenient_loader [Fin 3] =
     Some (Inr \<lparr>p_probability = Fin (1 / 2), p_confidence = Fin (1 / 2),
                 p_level = PHISHING, p_threshold = Fin (30 / 100)\<rparr>) \<and>
   \<not> js_ge (Fin (1 / 2)) (Fin (blockThreshold (config new_thresholds)))"
proof -
  have "getThreshold exact lenient_loader = Fin (30 / 100)"
    by (simp add: getThreshold_def lenient_loader_def)
  then show ?thesis
    by (simp add: predictWithConfidence_def lenient_predict risk_level_def round4_exact
        new_thresholds_def)
qed

section \<open>The threshold manager\<close>

text \<open>
  Claim C4. For a domain that is not popular the action is BLOCK exactly from the block
  threshold on (the boundary included) and WARN exactly from the warn threshold up to the
  block threshold; it is ALLOW exactly below the warn threshold when the warn threshold is
  not above the block threshold, as the invariant of the configuration says. For a popular
  domain it is ALLOW below the popular-domain threshold, also at or above the block
  threshold, and the same comparison otherwise.
\<close>

theorem getAction_thresholds:
  "(getAction tm (Fin p) False = BLOCK \<longleftrightarrow> p \<ge> blockThreshold (config tm)) \<and>
   (getAction tm (Fin p) False = WARN \<longleftrightarrow>
      warnThreshold (config tm) \<le> p \<and> p < blockThreshold (config tm)) \<and>
   (warnThreshold (config tm) \<le> blockThreshold (config tm) \<longrightarrow>
      (getAction tm (Fin p) False = ALLOW \<longleftrightarrow> p < warnThreshold (config tm))) \<and>
   (p < popularDomainThreshold (config tm) \<longrightarrow> getAction tm (Fin p) True = ALLOW) \<and>
   (\<not> p < popularDomainThreshold (config tm) \<longrightarrow>
      getAction tm (Fin p) True = getAction tm (Fin p) False)"
  by (auto simp: getAction_def)

theorem getAction_thresholds_witness:
  "warnThreshold (config new_thresholds) \<le> blockThreshold (config new_thresholds) \<and>
   getAction new_thresholds (Fin (70 / 100)) False = BLOCK \<and>
   getAction new_thresholds (Fin (69 / 100)) False = WARN \<and>
   getAction new_thresholds (Fin (49 / 100)) False = ALLOW \<and>
   getAction new_thresholds (Fin (80 / 100)) True = ALLOW \<and>
   getAction new_thresholds (Fin (95 / 100)) True = BLOCK"
  using getAction_thresholds[of new_thresholds "70 / 100"]
    getAction_thresholds[of new_thresholds "69 / 100"]
    getAction_thresholds[of new_thresholds "49 / 100"]
    getAction_thresholds[of new_thresholds "80 / 100"]
    getAction_thresholds[of new_thresholds "95 / 100"]
  by (simp add: new_thresholds_def)

section \<open>The prediction cache\<close>

lemma map_of_map_set: "map_of (map_set m k v) k = Some v"
  by (induction m k v rule: map_set.induct) simp_all

lemma map_set_new: "k \<notin> fst ` set m \<Longrightarrow> map_set m k v = m @ [(k, v)]"
  by (induction m k v rule: map_set.induct) auto

lemma keys_map_delete: "fst ` set (map_delete m k) = fst ` set m - {k}"
  by (auto simp: map_delete_def)

lemma map_delete_absent: "k \<notin> fst ` set m \<Longrightarrow> map_delete m k = m"
  by (induction m) (auto simp: map_delete_def)

lemma distinct_map_delete: "distinct (map fst m) \<Longrightarrow> distinct (map fst (map_delete m k))"
  by (simp add: map_delete_def distinct_map_filter)

lemma delete_first_key_tl: "distinct (map fst m) \<Longrightarrow> delete_first_key m = tl m"
  by (cases m) (auto simp: map_delete_def intro!: filter_True)

lemma keys_map_set: "fst ` set (map_set m k v) = insert k (fst ` set m)"
  by (induction m k v rule: map_set.induct) auto

lemma distinct_map_set: "distinct (map fst m) \<Longrightarrow> distinct (map fst (map_set m k v))"
proof (induction m k v rule: map_set.induct)
  case (1 k v)
  then show ?case by simp
next
  case (2 k' v' m k v)
  then show ?case using keys_map_set[of m k v] by (auto simp: image_iff)
qed

lemma cache_set_present:
  "map_of (cache_map (cache_set P c u d now)) (normalizeURL P u) =
     Some \<lparr>prediction = d, entry_timestamp = now\<rparr>"
  by (simp add: cache_set_def Let_def map_of_map_set)

lemma cache_set_frame:
  "ttl (cache_set P c u d now) = ttl c" "maxSize (cache_set P c u d now) = maxSize c"
  "hits (cache_set P c u d now) = hits c" "misses (cache_set P c u d now) = misses c"
  by (simp_all add: cache_set_def Let_def)

lemma cache_set_full:
  assumes "distinct (map fst (cache_map c))" "length (cache_map c) = maxSize c"
    "normalizeURL P v \<notin> fst ` set (cache_map c)"
  shows "cache_map (cache_set P c v d now) =
           tl (cache_map c) @ [(normalizeURL P v, \<lparr>prediction = d, entry_timestamp = now\<rparr>)]"
proof -
  from assms(3) have "normalizeURL P v \<notin> fst ` set (tl (cache_map c))"
    by (cases "cache_map c") auto
  with assms(1,2) show ?thesis
    by (simp add: cache_set_def Let_def delete_first_key_tl map_set_new)
qed

lemma cache_get_hit:
  assumes "cache_get P c u now = (Some d, c')"
  shows "\<exists>e. map_of (cache_map c) (normalizeURL P u) = Some e \<and> prediction e = d \<and>
             \<not> now - entry_timestamp e > ttl c \<and>
             cache_map c' = map_delete (cache_map c) (normalizeURL P u) @ [(normalizeURL P u, e)] \<and>
             maxSize c' = maxSize c \<and> ttl c' = ttl c \<and> hits c' = hits c + 1 \<and> misses c' = misses c"
  using assms
  by (auto simp: cache_get_def Let_def map_set_new keys_map_delete split: option.splits if_splits)

text \<open>Both operations keep the keys of the map distinct, as they are in an empty cache.\<close>

lemma cache_set_distinct:
  "distinct (map fst (cache_map c)) \<Longrightarrow> distinct (map fst (cache_map (cache_set P c u d now)))"
  by (cases "cache_map c")
     (auto simp: cache_set_def Let_def intro!: distinct_map_set distinct_map_delete)

lemma cache_get_distinct:
  "distinct (map fst (cache_map c)) \<Longrightarrow> distinct (map fst (cache_map (snd (cache_get P c u now))))"
  by (auto simp: cache_get_def Let_def split: option.splits
      intro!: distinct_map_set distinct_map_delete)

lemma example_keys:
  "normalizeURL basic_url ''https://a.example/'' = ''https://a.example/''"
  "normalizeURL basic_url ''https://b.example/'' = ''https://b.example/''"
  "normalizeURL basic_url ''https://c.example/'' = ''https://c.example/''"
  by (simp_all add: normalizeURL_def basic_url_def starts_with_def host_char_def)

lemma two_cache_map:
  "cache_map two_cache =
     [(''https://a.example/'', \<lparr>prediction = 1, entry_timestamp = 0\<rparr>),
      (''https://b.example/'', \<lparr>prediction = 2, entry_timestamp = 1\<rparr>)]"
  "maxSize two_cache = 2" "ttl two_cache = 3600000"
  by (simp_all add: two_cache_def cache_set_def new_cache_def example_keys)

lemma two_cache_get:
  "fst (cache_get basic_url two_cache ''https://a.example/'' 2) = Some 1"
  "cache_map (snd (cache_get basic_url two_cache ''https://a.example/'' 2)) =
     [(''https://b.example/'', \<lparr>prediction = 2, entry_timestamp = 1\<rparr>),
      (''https://a.example/'', \<lparr>prediction = 1, entry_timestamp = 0\<rparr>)]"
  "maxSize (snd (cache_get basic_url two_cache ''https://a.example/'' 2)) = 2"
  by (simp_all add: cache_get_def example_keys two_cache_map map_delete_def)

text \<open>
  Claim C7. A value stored with \<^verbatim>\<open>set\<close> at time \<open>t1\<close> is returned by \<^verbatim>\<open>get\<close> for the same
  URL at time \<open>t2\<close> as long as no more than the time to live has passed, in particular at
  once; when more has passed \<^verbatim>\<open>get\<close> returns \<^verbatim>\<open>null\<close> and the entry is gone from the
  cache.
\<close>

theorem cache_round_trip:
  "(t2 - t1 \<le> ttl c \<longrightarrow> fst (cache_get P (cache_set P c u d t1) u t2) = Some d) \<and>
   (t2 - t1 > ttl c \<longrightarrow>
      fst (cache_get P (cache_set P c u d t1) u t2) = None \<and>
      normalizeURL P u \<notin> fst ` set (cache_map (snd (cache_get P (cache_set P c u d t1) u t2))))"
  by (simp add: cache_get_def Let_def cache_set_present cache_set_frame keys_map_delete)

theorem cache_round_trip_witness:
  "(0::int) - 0 \<le> ttl (new_cache 1000 3600000 :: nat prediction_cache) \<and>
   fst (cache_get basic_url
          (cache_set basic_url (new_cache 1000 3600000) ''https://example.com/a#top'' (7::nat) 0)
          ''https://example.com/a#top'' 0) = Some 7 \<and>
   (3600001::int) - 0 > ttl (new_cache 1000 3600000 :: nat prediction_cache) \<and>
   fst (cache_get basic_url
          (cache_set basic_url (new_cache 1000 3600000) ''https://example.com/a#top'' (7::nat) 0)
          ''https://example.com/a#top'' 3600001) = None"
  using cache_round_trip[of 0 0 "new_cache 1000 3600000" basic_url "''https://example.com/a#top''" "7::nat"]
    cache_round_trip[of 3600001 0 "new_cache 1000 3600000" basic_url "''https://example.com/a#top''" "7::nat"]
  by (simp add: new_cache_def)

text \<open>
  Claim C8. The order of the map is the order of last use: \<^verbatim>\<open>set\<close> of a new key appends
  it and a hit of \<^verbatim>\<open>get\<close> moves the entry to the end, the others keeping their order. On
  a cache that holds \<open>maxSize\<close> entries, \<^verbatim>\<open>set\<close> of a new key removes the first entry and
  no other. After a hit for \<open>u\<close>, the next \<^verbatim>\<open>set\<close> of a new key on a full cache of two or
  more entries removes the entry at the head, which is not the one of \<open>u\<close>.
\<close>

theorem cache_lru_eviction:
  assumes "distinct (map fst (cache_map c))"
  shows "(length (cache_map c) = maxSize c \<and> normalizeURL P v \<notin> fst ` set (cache_map c) \<longrightarrow>
            cache_map (cache_set P c v d now) =
              tl (cache_map c) @ [(normalizeURL P v, \<lparr>prediction = d, entry_timestamp = now\<rparr>)]) \<and>
         (cache_get P c u t = (Some d0, c') \<longrightarrow>
            fst (last (cache_map c')) = normalizeURL P u \<and>
            butlast (cache_map c') = map_delete (cache_map c) (normalizeURL P u) \<and>
            (length (cache_map c') = maxSize c' \<and> 2 \<le> length (cache_map c') \<and>
             normalizeURL P v \<notin> fst ` set (cache_map c') \<longrightarrow>
               normalizeURL P u \<in> fst ` set (cache_map (cache_set P c' v d now)) \<and>
               fst ` set (cache_map (cache_set P c' v d now)) =
                 insert (normalizeURL P v) (fst ` set (cache_map c') - {fst (hd (cache_map c'))})))"
proof (intro conjI impI)
  assume "length (cache_map c) = maxSize c \<and> normalizeURL P v \<notin> fst ` set (cache_map c)"
  with assms show "cache_map (cache_set P c v d now) =
      tl (cache_map c) @ [(normalizeURL P v, \<lparr>prediction = d, entry_timestamp = now\<rparr>)]"
    by (simp add: cache_set_full)
next
  assume hit: "cache_get P c u t = (Some d0, c')"
  from cache_get_hit[OF hit] obtain e where
    e: "cache_map c' = map_delete (cache_map c) (normalizeURL P u) @ [(normalizeURL P u, e)]"
    by blast
  show "fst (last (cache_map c')) = normalizeURL P u" by (simp add: e)
  show "butlast (cache_map c') = map_delete (cache_map c) (normalizeURL P u)" by (simp add: e)
  have d': "distinct (map fst (cache_map c'))"
    using distinct_map_delete[OF assms, of "normalizeURL P u"] keys_map_delete[of "cache_map c" "normalizeURL P u"]
    by (simp add: e)
  assume full: "length (cache_map c') = maxSize c' \<and> 2 \<le> length (cache_map c') \<and>
             normalizeURL P v \<notin> fst ` set (cache_map c')"
  then have new: "cache_map (cache_set P c' v d now) =
      tl (cache_map c') @ [(normalizeURL P v, \<lparr>prediction = d, entry_timestamp = now\<rparr>)]"
    using d' by (simp add: cache_set_full)
  from full obtain x y m where xy: "cache_map c' = x # y # m"
    by (cases "cache_map c'"; cases "tl (cache_map c')") auto
  with e have "last (y # m) = (normalizeURL P u, e)"
    by (metis last.simps last_snoc list.distinct(1))
  then have "(normalizeURL P u, e) \<in> set (y # m)" by (metis last_in_set list.distinct(1))
  then have "normalizeURL P u \<in> fst ` set (tl (cache_map c'))" unfolding xy by force
  then show "normalizeURL P u \<in> fst ` set (cache_map (cache_set P c' v d now))"
    by (simp add: new)
  from d' show "fst ` set (cache_map (cache_set P c' v d now)) =
      insert (normalizeURL P v) (fst ` set (cache_map c') - {fst (hd (cache_map c'))})"
    unfolding new xy by auto
qed

theorem cache_lru_eviction_witness:
  "distinct (map fst (cache_map two_cache)) \<and>
   length (cache_map two_cache) = maxSize two_cache \<and>
   ''https://c.example/'' \<notin> fst ` set (cache_map two_cache) \<and>
   map fst (cache_map (cache_set basic_url two_cache ''https://c.example/'' 3 3)) =
     [''https://b.example/'', ''https://c.example/''] \<and>
   fst (cache_get basic_url two_cache ''https://a.example/'' 2) = Some 1 \<and>
   map fst (cache_map (cache_set basic_url (snd (cache_get basic_url two_cache ''https://a.example/'' 2))
                         ''https://c.example/'' 3 3)) =
     [''https://a.example/'', ''https://c.example/'']"
proof -
  let ?c' = "snd (cache_get basic_url two_cache ''https://a.example/'' 2)"
  have d: "distinct (map fst (cache_map two_cache))" by (simp add: two_cache_map)
  have hit: "cache_get basic_url two_cache ''https://a.example/'' 2 = (Some 1, ?c')"
    using two_cache_get(1) by (simp add: prod_eq_iff)
  note T = cache_lru_eviction[OF d, of basic_url "''https://c.example/''" 3 3 "''https://a.example/''" 2 1 ?c']
  have full: "length (cache_map two_cache) = maxSize two_cache \<and>
      normalizeURL basic_url ''https://c.example/'' \<notin> fst ` set (cache_map two_cache)"
    by (simp add: two_cache_map example_keys)
  with T have 1: "cache_map (cache_set basic_url two_cache ''https://c.example/'' 3 3) =
      tl (cache_map two_cache) @
        [(normalizeURL basic_url ''https://c.example/'', \<lparr>prediction = 3, entry_timestamp = 3\<rparr>)]"
    by blast
  have full': "length (cache_map ?c') = maxSize ?c' \<and> 2 \<le> length (cache_map ?c') \<and>
      normalizeURL basic_url ''https://c.example/'' \<notin> fst ` set (cache_map ?c')"
    by (simp add: two_cache_get example_keys)
  with T hit have 2: "normalizeURL basic_url ''https://a.example/'' \<in>
      fst ` set (cache_map (cache_set basic_url ?c' ''https://c.example/'' 3 3))"
    by blast
  have 3: "map fst (cache_map (cache_set basic_url ?c' ''https://c.example/'' 3 3)) =
     [''https://a.example/'', ''https://c.example/'']"
    by (simp add: cache_set_def two_cache_get example_keys map_delete_def)
  from 1 2 3 d two_cache_get(1) show ?thesis
    by (simp add: two_cache_map example_keys)
qed

section \<open>The whitelist\<close>

lemma basic_url_examples:
  "basic_url ''https://a.b.example.com/x'' =
     Some \<lparr>protocol = ''https:'', hostname = ''a.b.example.com'', pathname = ''/x'', search = []\<rparr>"
  "basic_url ''http://example.com'' =
     Some \<lparr>protocol = ''http:'', hostname = ''example.com'', pathname = ''/'', search = []\<rparr>"
  "basic_url ''https://example.com'' =
     Some \<lparr>protocol = ''https:'', hostname = ''example.com'', pathname = ''/'', search = []\<rparr>"
  "basic_url ''http://b.example.com'' =
     Some \<lparr>protocol = ''http:'', hostname = ''b.example.com'', pathname = ''/'', search = []\<rparr>"
  by (simp_all add: basic_url_def starts_with_def host_char_def)

lemma extractDomain_examples:
  "extractDomain basic_url ''example.com'' = Some ''example.com''"
  "extractDomain basic_url ''b.example.com'' = Some ''example.com''"
  "extractDomain basic_url ''https://example.com'' = Some ''example.com''"
  "extractDomain basic_url ''https://a.b.example.com/x'' = Some ''example.com''"
  by (simp_all add: extractDomain_def basic_url_examples starts_with_def)

text \<open>
  Claim C3, as amended. \<^verbatim>\<open>add\<close> stores the registrable domain of its argument, the last
  two labels of the host name, and \<^verbatim>\<open>isWhitelisted\<close> looks up the registrable domain of
  the URL. So after \<^verbatim>\<open>add(x)\<close> every URL with the registrable domain of \<open>x\<close> is
  whitelisted, whether its host is above or below the host of \<open>x\<close>: adding
  \<^verbatim>\<open>example.com\<close> covers \<^verbatim>\<open>https://a.b.example.com/x\<close>, and adding
  \<^verbatim>\<open>b.example.com\<close> stores \<^verbatim>\<open>example.com\<close> and covers \<^verbatim>\<open>https://example.com\<close>.
\<close>

theorem whitelist_matches_registrable_domain:
  assumes "extractDomain P x = Some d" "d \<noteq> []" "extractDomain P u = Some d"
  shows "fst (whitelist_add P w x) \<and> domains (snd (whitelist_add P w x)) = insert d (domains w) \<and>
         isWhitelisted P (snd (whitelist_add P w x)) u"
  using assms by (simp add: whitelist_add_def isWhitelisted_def)

theorem whitelist_matches_registrable_domain_witness:
  "extractDomain basic_url ''example.com'' = Some ''example.com'' \<and>
   extractDomain basic_url ''https://a.b.example.com/x'' = Some ''example.com'' \<and>
   isWhitelisted basic_url (snd (whitelist_add basic_url \<lparr>domains = {}, loaded = True\<rparr> ''example.com''))
     ''https://a.b.example.com/x'' \<and>
   extractDomain basic_url ''b.example.com'' = Some ''example.com'' \<and>
   extractDomain basic_url ''https://example.com'' = Some ''example.com'' \<and>
   domains (snd (whitelist_add basic_url \<lparr>domains = {}, loaded = True\<rparr> ''b.example.com'')) =
     {''example.com''}"
  using whitelist_matches_registrable_domain[of basic_url "''example.com''" "''example.com''"
      "''https://a.b.example.com/x''" "\<lparr>domains = {}, loaded = True\<rparr>"]
    whitelist_matches_registrable_domain[of basic_url "''b.example.com''" "''example.com''"
      "''https://example.com''" "\<lparr>domains = {}, loaded = True\<rparr>"]
  by (simp add: extractDomain_examples)

text \<open>
  The claim as stated fails in its second half: after \<^verbatim>\<open>add("b.example.com")\<close> on an
  empty whitelist, \<^verbatim>\<open>isWhitelisted("https://example.com")\<close> is true.
\<close>

theorem whitelist_descendant_counterexample:
  "isWhitelisted basic_url (snd (whitelist_add basic_url \<lparr>domains = {}, loaded = True\<rparr> ''b.example.com''))
     ''https://example.com''"
  by (simp add: whitelist_add_def isWhitelisted_def extractDomain_examples)

section \<open>The decision engine\<close>

lemma init_returns: "\<exists>eng0. init ev eng = Inr eng0 \<and> cache eng0 = cache eng"
  by (auto simp: init_def whitelist_load_def thresholds_load_def split: sum.splits)

text \<open>The places where the \<^verbatim>\<open>try\<close> block throws, for a URL that is not whitelisted.\<close>

lemma try_block_throws:
  assumes "\<not> isWhitelisted P (whitelist eng) u"
    and "cache_get P (cache eng) u (now_get ev) = (None, c)"
  shows "extractFeatures fx u = Some (Inl e) \<Longrightarrow>
           decide_try P fx pr ev u eng = Some (Inl e, eng\<lparr>cache := c\<rparr>)"
    and "extractFeatures fx u = Some (Inr None) \<Longrightarrow>
           decide_try P fx pr ev u eng =
             Some (Inl (Error ''Failed to extract features''), eng\<lparr>cache := c\<rparr>)"
    and "extractFeatures fx u = Some (Inr (Some f)) \<Longrightarrow> featuresToArray fx f = Some (Inl e) \<Longrightarrow>
           decide_try P fx pr ev u eng = Some (Inl e, eng\<lparr>cache := c\<rparr>)"
    and "extractFeatures fx u = Some (Inr (Some f)) \<Longrightarrow> featuresToArray fx f = Some (Inr a) \<Longrightarrow>
           pr a = Some (Inl e) \<Longrightarrow>
           decide_try P fx pr ev u eng = Some (Inl e, eng\<lparr>cache := c\<rparr>)"
  using assms by (simp_all add: decide_try_def)


lemma ready_init: "init quiet_env ready_engine = Inr ready_engine"
  by (simp add: init_def ready_engine_def)


lemma ready_whitelisted: "isWhitelisted basic_url (whitelist ready_engine) ''https://a.b.example.com/x''"
  by (simp add: isWhitelisted_def extractDomain_examples ready_engine_def)



lemma stump_predictor_right:
  assumes "1 / 2 \<le> x"
  shows "stump_predictor [Fin x] =
           Some (Inr \<lparr>p_probability = Fin 1, p_confidence = Fin 1, p_level = PHISHING,
                       p_threshold = Fin (70 / 100)\<rparr>)"
proof -
  have "getThreshold exact (loader_of [stump] 0) = Fin (70 / 100)"
    by (simp add: getThreshold_def loader_of_def)
  then show ?thesis
    by (simp add: stump_predictor_def predictWithConfidence_def stump_predict_right[OF assms]
        risk_level_def round4_exact)
qed

lemma cold_white: "isWhitelisted basic_url (whitelist cold_engine) ''https://example.com''"
  by (simp add: isWhitelisted_def extractDomain_examples cold_engine_def)

lemma cold_init:
  "init other_env cold_engine =
     Inr (cold_engine\<lparr>whitelist := \<lparr>domains = {''other.org''}, loaded = True\<rparr>,
                       initialized := True\<rparr>)"
  by (simp add: init_def cold_engine_def new_engine_def other_env_def quiet_env_def
      whitelist_load_def whitelist_load_try_def thresholds_load_def thresholds_load_try_def)

lemma cold_not_white:
  "\<not> isWhitelisted basic_url \<lparr>domains = {''other.org''}, loaded = True\<rparr> ''https://example.com''"
  by (simp add: isWhitelisted_def extractDomain_examples)

lemma cold_try:
  "decide_try basic_url length_extractor stump_predictor other_env ''https://example.com''
     (cold_engine\<lparr>whitelist := \<lparr>domains = {''other.org''}, loaded = True\<rparr>, initialized := True\<rparr>) =
   Some (Inr cold_decision,
         cold_engine\<lparr>whitelist := \<lparr>domains = {''other.org''}, loaded = True\<rparr>,
                      initialized := True,
                      cache := (cache cold_engine)
                        \<lparr>cache_map := [(''https://example.com/'',
                                        \<lparr>prediction = cold_decision, entry_timestamp = 1000\<rparr>)],
                         misses := 1\<rparr>\<rparr>)"
proof -
  have f: "extractFeatures length_extractor ''https://example.com'' = Some (Inr (Some [Fin 11]))"
    "featuresToArray length_extractor [Fin 11] = Some (Inr [Fin 11])"
    by (simp_all add: length_extractor_def basic_url_examples)
  have p: "stump_predictor [Fin 11] =
           Some (Inr \<lparr>p_probability = Fin 1, p_confidence = Fin 1, p_level = PHISHING,
                       p_threshold = Fin (70 / 100)\<rparr>)"
    by (rule stump_predictor_right) simp
  have pop: "\<not> isPopularDomain basic_url ''https://example.com''"
    by (simp add: isPopularDomain_def basic_url_examples popularDomains_def ends_with_def)
  have n: "normalizeURL basic_url ''https://example.com'' = ''https://example.com/''"
    by (simp add: normalizeURL_def basic_url_examples)
  show ?thesis
    by (simp add: decide_try_def cold_not_white f p pop n cache_get_def cache_set_def
        cold_engine_def new_engine_def new_cache_def other_env_def quiet_env_def
        getAction_def new_thresholds_def createDecision_def cold_decision_def Let_def)
qed

text \<open>
  Claim C10, as amended. For a URL that is whitelisted when \<^verbatim>\<open>decide\<close> runs its steps,
  that is in the whitelist the engine has after \<^verbatim>\<open>init\<close> (on an initialized engine: the
  whitelist at the call), the decision is ALLOW, level SAFE, reason \<^verbatim>\<open>whitelisted\<close>,
  probability 0, confidence 1, and the engine after the call is the engine after
  \<^verbatim>\<open>init\<close>, whose cache is the cache before the call: no entry is added or moved and the
  hit and miss counters stand.
\<close>

theorem decide_whitelisted_skips_cache:
  assumes "init ev eng = Inr eng0" "isWhitelisted P (whitelist eng0) u"
  shows "cache eng0 = cache eng \<and> (initialized eng \<longrightarrow> eng0 = eng) \<and>
         (\<exists>d. decide P fx pr ev u eng = Some (Inr (d, eng0)) \<and>
              action d = ALLOW \<and> level d = SAFE \<and> reason d = ''whitelisted'' \<and>
              probability d = Some (Fin 0) \<and> confidence d = Fin 1 \<and> cached d = False \<and>
              error d = None \<and> url d = u)"
proof -
  from init_returns[of ev eng] assms(1) have "cache eng0 = cache eng" by auto
  moreover from assms(1) have "initialized eng \<longrightarrow> eng0 = eng" by (auto simp: init_def)
  moreover from assms have "\<exists>d. decide P fx pr ev u eng = Some (Inr (d, eng0)) \<and>
              action d = ALLOW \<and> level d = SAFE \<and> reason d = ''whitelisted'' \<and>
              probability d = Some (Fin 0) \<and> confidence d = Fin 1 \<and> cached d = False \<and>
              error d = None \<and> url d = u"
    by (simp add: decide_def decide_try_def createDecision_def)
  ultimately show ?thesis by blast
qed

theorem decide_whitelisted_skips_cache_witness:
  "init quiet_env ready_engine = Inr ready_engine \<and>
   isWhitelisted basic_url (whitelist ready_engine) ''https://a.b.example.com/x'' \<and>
   (\<exists>d. decide basic_url length_extractor stump_predictor quiet_env ''https://a.b.example.com/x'' ready_engine =
           Some (Inr (d, ready_engine)) \<and>
        action d = ALLOW \<and> level d = SAFE \<and> reason d = ''whitelisted'')"
proof -
  from decide_whitelisted_skips_cache[OF ready_init ready_whitelisted, of length_extractor stump_predictor]
  have "\<exists>d. decide basic_url length_extractor stump_predictor quiet_env ''https://a.b.example.com/x'' ready_engine =
           Some (Inr (d, ready_engine)) \<and>
        action d = ALLOW \<and> level d = SAFE \<and> reason d = ''whitelisted''"
    by blast
  with ready_init ready_whitelisted show ?thesis by blast
qed

text \<open>
  The claim as stated, with the whitelist at the call, fails on an engine that is not
  initialized: \<^verbatim>\<open>init\<close> replaces the whitelist in memory by the stored one, and a URL
  that was whitelisted at the call gets the decision of the model, which is stored in the
  cache after a counted miss.
\<close>

theorem decide_whitelisted_counterexample:
  "isWhitelisted basic_url (whitelist cold_engine) ''https://example.com'' \<and>
   cache_map (cache cold_engine) = [] \<and> misses (cache cold_engine) = 0 \<and>
   decide basic_url length_extractor stump_predictor other_env ''https://example.com'' cold_engine =
     Some (Inr (cold_decision,
                cold_engine\<lparr>whitelist := \<lparr>domains = {''other.org''}, loaded = True\<rparr>,
                             initialized := True,
                             cache := (cache cold_engine)
                               \<lparr>cache_map := [(''https://example.com/'',
                                               \<lparr>prediction = cold_decision, entry_timestamp = 1000\<rparr>)],
                                misses := 1\<rparr>\<rparr>)) \<and>
   action cold_decision = BLOCK \<and> reason cold_decision = ''ml_prediction''"
proof -
  have "cache_map (cache cold_engine) = []" "misses (cache cold_engine) = 0"
    by (simp_all add: cold_engine_def new_engine_def new_cache_def)
  moreover have "action cold_decision = BLOCK" "reason cold_decision = ''ml_prediction''"
    by (simp_all add: cold_decision_def)
  moreover have
    "decide basic_url length_extractor stump_predictor other_env ''https://example.com'' cold_engine =
     Some (Inr (cold_decision,
                cold_engine\<lparr>whitelist := \<lparr>domains = {''other.org''}, loaded = True\<rparr>,
                             initialized := True,
                             cache := (cache cold_engine)
                               \<lparr>cache_map := [(''https://example.com/'',
                                               \<lparr>prediction = cold_decision, entry_timestamp = 1000\<rparr>)],
                                misses := 1\<rparr>\<rparr>))"
    unfolding decide_def cold_init by (simp add: cold_try)
  ultimately show ?thesis using cold_white by blast
qed

end
